theory Spec2Isabelle
  imports Main "HOL-Library.Word" "HOL-Library.Monad_Syntax"
begin

unbundle bit_operations_syntax

section \<open>LZ4 block decoder (lz4.c, lz4.h): machine integers\<close>

text \<open>
  The model is for an LP64 target (x86-64, aarch64): \<open>int\<close> and \<open>unsigned\<close> have 32 bits,
  \<open>size_t\<close>, \<open>ptrdiff_t\<close> and \<open>uptrval\<close> have 64 bits. C integers are HOL integers with the
  conversions written out. A pointer is an index into the object it points into, and pointer
  arithmetic and comparison are those of the indices; only the \<open>uptrval\<close> overflow tests look
  at addresses. \<open>assert\<close> and \<open>DEBUGLOG\<close> expand to nothing (\<open>LZ4_DEBUG\<close> is not defined),
  \<open>likely\<close> and \<open>unlikely\<close> are the identity.
\<close>

type_synonym byte = "8 word"

definition to_unsigned :: "int \<Rightarrow> int" where
  \<comment> \<open>the cast \<open>(unsigned)x\<close>\<close>
  "to_unsigned x = x mod 2 ^ 32"

definition to_int :: "int \<Rightarrow> int" where
  \<comment> \<open>the cast \<open>(int)x\<close>: the low 32 bits, read as two's complement\<close>
  "to_int x = (x + 2 ^ 31) mod 2 ^ 32 - 2 ^ 31"

definition to_size_t :: "int \<Rightarrow> int" where
  \<comment> \<open>the cast \<open>(size_t)x\<close>\<close>
  "to_size_t x = x mod 2 ^ 64"

definition c_div :: "int \<Rightarrow> int \<Rightarrow> int" where
  \<comment> \<open>C's \<open>/\<close> on signed integers truncates towards zero\<close>
  "c_div a b = sgn a * sgn b * (\<bar>a\<bar> div \<bar>b\<bar>)"

definition INT_MIN :: int where "INT_MIN = - (2 ^ 31)"
definition INT_MAX :: int where "INT_MAX = 2 ^ 31 - 1"

subsection \<open>lz4.h: LZ4\_COMPRESSBOUND\<close>

definition LZ4_MAX_INPUT_SIZE :: int where
  "LZ4_MAX_INPUT_SIZE = 0x7E000000"

definition LZ4_COMPRESSBOUND :: "int \<Rightarrow> int" where
  "LZ4_COMPRESSBOUND isize =
     (if to_unsigned isize > to_unsigned LZ4_MAX_INPUT_SIZE then 0
      else to_int (isize + c_div isize 255 + 16))"

definition LZ4_compressBound :: "int \<Rightarrow> int" where
  "LZ4_compressBound isize = LZ4_COMPRESSBOUND isize"

subsection \<open>Memory\<close>

text \<open>
  A buffer is the list of its bytes and a pointer into it is an integer index. Every access is
  checked against the buffer: an access outside it makes the operation, and everything built on
  it, return \<open>None\<close>. A transfer of zero bytes touches no memory.
\<close>

definition peek :: "byte list \<Rightarrow> int \<Rightarrow> byte option" where
  "peek buf p = (if 0 \<le> p \<and> p < int (length buf) then Some (buf ! nat p) else None)"

definition load :: "byte list \<Rightarrow> int \<Rightarrow> int \<Rightarrow> byte list option" where
  "load buf p n =
     (if n \<le> 0 then Some []
      else if 0 \<le> p \<and> p + n \<le> int (length buf) then Some (take (nat n) (drop (nat p) buf))
      else None)"

definition store :: "byte list \<Rightarrow> int \<Rightarrow> byte list \<Rightarrow> byte list option" where
  "store buf p bs =
     (if bs = [] then Some buf
      else if 0 \<le> p \<and> p + int (length bs) \<le> int (length buf)
        then Some (take (nat p) buf @ bs @ drop (nat p + length bs) buf)
      else None)"

subsection \<open>read\_variable\_length\<close>

datatype variable_length_error = loop_error | initial_error | ok

text \<open>The \<open>do \<dots> while (s==255)\<close> loop; the accumulator \<open>length\<close> (here \<open>len\<close>) is an \<open>unsigned\<close> and wraps at \<open>2 ^ 32\<close>.\<close>

function read_variable_length_loop ::
  "byte list \<Rightarrow> int \<Rightarrow> int \<Rightarrow> bool \<Rightarrow> int \<Rightarrow> variable_length_error
     \<Rightarrow> (int \<times> int \<times> variable_length_error) option" where
  "read_variable_length_loop buf ip lencheck loop_check len error =
     (case peek buf ip of
        None \<Rightarrow> None
      | Some s \<Rightarrow>
          if loop_check \<and> ip + 1 \<ge> lencheck
            then Some (to_unsigned (len + uint s), ip + 1, loop_error)
          else if s = 255
            then read_variable_length_loop buf (ip + 1) lencheck loop_check
                   (to_unsigned (len + uint s)) error
          else Some (to_unsigned (len + uint s), ip + 1, error))"
  by pat_completeness auto
termination
  by (relation "measure (\<lambda>(buf, ip, lencheck, loop_check, len, error). nat (int (length buf) - ip))")
     (auto simp: peek_def split: if_splits)

text \<open>Returns the length, the advanced \<open>*ip\<close> and \<open>*error\<close>.\<close>

definition read_variable_length ::
  "byte list \<Rightarrow> int \<Rightarrow> int \<Rightarrow> bool \<Rightarrow> bool \<Rightarrow> variable_length_error
     \<Rightarrow> (int \<times> int \<times> variable_length_error) option" where
  "read_variable_length buf ip lencheck loop_check initial_check error =
     (if initial_check \<and> ip \<ge> lencheck then Some (0, ip, initial_error)
      else read_variable_length_loop buf ip lencheck loop_check 0 error)"


subsection \<open>Copy primitives\<close>

text \<open>
  The bytes a copy reads are either in the object it writes to (\<open>Self\<close>: a match copied
  inside the output) or in another object (\<open>Other\<close>: the compressed input, a dictionary).
  \<open>memcpy\<close> and \<open>memmove\<close> read all their bytes before they write; the compressed input
  and the output are distinct objects (no in-place decompression).
\<close>

datatype source = Self | Other "byte list"

definition bytes_of :: "source \<Rightarrow> byte list \<Rightarrow> byte list" where
  "bytes_of sobj mem = (case sobj of Self \<Rightarrow> mem | Other buf \<Rightarrow> buf)"

definition memcpy :: "byte list \<Rightarrow> int \<Rightarrow> source \<Rightarrow> int \<Rightarrow> int \<Rightarrow> byte list option" where
  "memcpy mem d sobj s n = do { bs \<leftarrow> load (bytes_of sobj mem) s n; store mem d bs }"

definition memmove :: "byte list \<Rightarrow> int \<Rightarrow> source \<Rightarrow> int \<Rightarrow> int \<Rightarrow> byte list option" where
  "memmove mem d sobj s n = do { bs \<leftarrow> load (bytes_of sobj mem) s n; store mem d bs }"

text \<open>\<open>d[0] = s[0]\<close> inside the output.\<close>

definition copy_byte :: "byte list \<Rightarrow> int \<Rightarrow> int \<Rightarrow> byte list option" where
  "copy_byte mem d s = do { b \<leftarrow> peek mem s; store mem d [b] }"

definition LZ4_write32 :: "byte list \<Rightarrow> int \<Rightarrow> 32 word \<Rightarrow> byte list option" where
  "LZ4_write32 mem p v = store mem p (map (\<lambda>k. ucast (drop_bit (8 * k) v)) [0, 1, 2, 3])"

definition LZ4_readLE16 :: "byte list \<Rightarrow> int \<Rightarrow> int option" where
  "LZ4_readLE16 buf p = do { bs \<leftarrow> load buf p 2; Some (uint (bs ! 0) + uint (bs ! 1) * 2 ^ 8) }"

function LZ4_wildCopy8 :: "byte list \<Rightarrow> int \<Rightarrow> source \<Rightarrow> int \<Rightarrow> int \<Rightarrow> byte list option" where
  "LZ4_wildCopy8 mem d sobj s e =
     (case memcpy mem d sobj s 8 of
        None \<Rightarrow> None
      | Some mem' \<Rightarrow> if d + 8 < e then LZ4_wildCopy8 mem' (d + 8) sobj (s + 8) e else Some mem')"
  by pat_completeness auto
termination
  by (relation "measure (\<lambda>(mem, d, sobj, s, e). nat (e - d))") auto

function LZ4_wildCopy32 :: "byte list \<Rightarrow> int \<Rightarrow> source \<Rightarrow> int \<Rightarrow> int \<Rightarrow> byte list option" where
  "LZ4_wildCopy32 mem d sobj s e =
     (case memcpy mem d sobj s 16 of
        None \<Rightarrow> None
      | Some mem1 \<Rightarrow>
         (case memcpy mem1 (d + 16) sobj (s + 16) 16 of
            None \<Rightarrow> None
          | Some mem' \<Rightarrow> if d + 32 < e then LZ4_wildCopy32 mem' (d + 32) sobj (s + 32) e else Some mem'))"
  by pat_completeness auto
termination
  by (relation "measure (\<lambda>(mem, d, sobj, s, e). nat (e - d))") auto

text \<open>\<open>while (d < e) { *d++ = *s++; }\<close> inside the output; returns the memory and both pointers.\<close>

function byte_copy_loop :: "byte list \<Rightarrow> int \<Rightarrow> int \<Rightarrow> int \<Rightarrow> (byte list \<times> int \<times> int) option" where
  "byte_copy_loop mem d s e =
     (if d < e
      then (case copy_byte mem d s of
              None \<Rightarrow> None
            | Some mem' \<Rightarrow> byte_copy_loop mem' (d + 1) (s + 1) e)
      else Some (mem, d, s))"
  by pat_completeness auto
termination
  by (relation "measure (\<lambda>(mem, d, s, e). nat (e - d))") auto

definition inc32table :: "int list" where
  "inc32table = [0, 1, 2, 1, 0, 4, 4, 4]"

definition dec64table :: "int list" where
  "dec64table = [0, 0, 0, - 1, - 4, 1, 2, 3]"

definition LZ4_memcpy_using_offset_base :: "byte list \<Rightarrow> int \<Rightarrow> int \<Rightarrow> int \<Rightarrow> int \<Rightarrow> byte list option" where
  "LZ4_memcpy_using_offset_base mem dstPtr srcPtr dstEnd offset =
     (if offset < 8 then do {
        m0 \<leftarrow> copy_byte mem dstPtr srcPtr;
        m1 \<leftarrow> copy_byte m0 (dstPtr + 1) (srcPtr + 1);
        m2 \<leftarrow> copy_byte m1 (dstPtr + 2) (srcPtr + 2);
        m3 \<leftarrow> copy_byte m2 (dstPtr + 3) (srcPtr + 3);
        let srcPtr1 = srcPtr + inc32table ! nat offset;
        m4 \<leftarrow> memcpy m3 (dstPtr + 4) Self srcPtr1 4;
        let srcPtr2 = srcPtr1 - dec64table ! nat offset;
        LZ4_wildCopy8 m4 (dstPtr + 8) Self srcPtr2 dstEnd
      } else do {
        m0 \<leftarrow> memcpy mem dstPtr Self srcPtr 8;
        LZ4_wildCopy8 m0 (dstPtr + 8) Self (srcPtr + 8) dstEnd
      })"

text \<open>\<open>while (dstPtr < dstEnd) { memcpy(dstPtr, v, 8); dstPtr += 8; }\<close> from the local array \<open>v\<close>.\<close>

function pattern_loop :: "byte list \<Rightarrow> int \<Rightarrow> int \<Rightarrow> byte list \<Rightarrow> byte list option" where
  "pattern_loop mem dstPtr dstEnd v =
     (if dstPtr < dstEnd
      then (case store mem dstPtr v of
              None \<Rightarrow> None
            | Some mem' \<Rightarrow> pattern_loop mem' (dstPtr + 8) dstEnd v)
      else Some mem)"
  by pat_completeness auto
termination
  by (relation "measure (\<lambda>(mem, dstPtr, dstEnd, v). nat (dstEnd - dstPtr))") auto

definition LZ4_memcpy_using_offset :: "byte list \<Rightarrow> int \<Rightarrow> int \<Rightarrow> int \<Rightarrow> int \<Rightarrow> byte list option" where
  "LZ4_memcpy_using_offset mem dstPtr srcPtr dstEnd offset = do {
     m0 \<leftarrow> LZ4_write32 mem dstPtr 0;
     if offset \<noteq> 1 \<and> offset \<noteq> 2 \<and> offset \<noteq> 4
     then LZ4_memcpy_using_offset_base m0 dstPtr srcPtr dstEnd offset
     else do {
       v \<leftarrow> (if offset = 1 then do { b \<leftarrow> peek m0 srcPtr; Some (replicate 8 b) }
             else if offset = 2 then do { bs \<leftarrow> load m0 srcPtr 2; Some (bs @ bs @ bs @ bs) }
             else do { bs \<leftarrow> load m0 srcPtr 4; Some (bs @ bs) });
       m1 \<leftarrow> store m0 dstPtr v;
       pattern_loop m1 (dstPtr + 8) dstEnd v
     }
   }"

subsection \<open>LZ4\_decompress\_generic: arguments and state\<close>

datatype endCondition_directive = endOnOutputSize | endOnInputSize
datatype earlyEnd_directive = decode_full_block | partial_decode
datatype dict_directive = noDict | withPrefix64k | usingExtDict | usingDictCtx

text \<open>
  The arguments of \<open>LZ4_decompress_generic\<close>. \<open>src\<close> is the compressed input (\<open>None\<close> is
  \<open>NULL\<close>), read through the pointer \<open>ip\<close>, an index into it. The output object is the memory
  the decoder writes; \<open>dst\<close> and \<open>lowPrefix\<close> are indices into it. \<open>dictStart\<close> is the
  external dictionary (\<open>None\<close> is \<open>NULL\<close>).
\<close>

record params =
  src :: "byte list option"
  dst :: int
  srcSize :: int
  outputSize :: int
  endOnInput :: endCondition_directive
  partialDecoding :: earlyEnd_directive
  dict :: dict_directive
  lowPrefix :: int
  dictStart :: "byte list option"
  dictSize :: int

text \<open>
  What the build and the run fix: whether \<open>LZ4_FAST_DEC_LOOP\<close> is 1 (x86-64, and aarch64
  outside clang) and the addresses of the first byte of the input and of the output object,
  which the \<open>uptrval\<close> overflow tests look at.
\<close>

record target =
  LZ4_FAST_DEC_LOOP :: bool
  srcAddr :: int
  dstAddr :: int

text \<open>The local variables that survive an iteration: both cursors, and the output memory.\<close>

record dstate =
  ip :: int
  op :: int
  mem :: "byte list"

datatype step = Continue dstate | Break dstate | Error dstate

datatype fstep = FContinue dstate | FError dstate | InSafe step

datatype exit = EndOfDecoding dstate | OutputError dstate

abbreviation (input) MINMATCH :: int where "MINMATCH \<equiv> 4"
abbreviation (input) WILDCOPYLENGTH :: int where "WILDCOPYLENGTH \<equiv> 8"
abbreviation (input) LASTLITERALS :: int where "LASTLITERALS \<equiv> 5"
abbreviation (input) MFLIMIT :: int where "MFLIMIT \<equiv> 12"
abbreviation (input) MATCH_SAFEGUARD_DISTANCE :: int where
  "MATCH_SAFEGUARD_DISTANCE \<equiv> 2 * WILDCOPYLENGTH - MINMATCH"
abbreviation (input) FASTLOOP_SAFE_DISTANCE :: int where "FASTLOOP_SAFE_DISTANCE \<equiv> 64"
abbreviation (input) ML_BITS :: nat where "ML_BITS \<equiv> 4"
abbreviation (input) ML_MASK :: int where "ML_MASK \<equiv> 15"
abbreviation (input) RUN_MASK :: int where "RUN_MASK \<equiv> 15"

abbreviation (input) on_input :: "params \<Rightarrow> bool" where
  "on_input c \<equiv> endOnInput c = endOnInputSize"
abbreviation (input) partial :: "params \<Rightarrow> bool" where
  "partial c \<equiv> partialDecoding c = partial_decode"

definition input :: "params \<Rightarrow> byte list" where
  \<comment> \<open>the object \<open>src\<close> points to; nothing can be read through \<open>NULL\<close>\<close>
  "input c = (case src c of None \<Rightarrow> [] | Some buf \<Rightarrow> buf)"

definition dictionary :: "params \<Rightarrow> byte list" where
  "dictionary c = (case dictStart c of None \<Rightarrow> [] | Some buf \<Rightarrow> buf)"

definition iend :: "params \<Rightarrow> int" where "iend c = srcSize c"
definition oend :: "params \<Rightarrow> int" where "oend c = dst c + outputSize c"
definition dictEnd :: "params \<Rightarrow> int" where
  \<comment> \<open>an index into the dictionary; \<open>NULL\<close> when \<open>dictStart\<close> is\<close>
  "dictEnd c = (case dictStart c of None \<Rightarrow> 0 | Some buf \<Rightarrow> dictSize c)"
definition safeDecode :: "params \<Rightarrow> bool" where "safeDecode c = (endOnInput c = endOnInputSize)"
definition checkOffset :: "params \<Rightarrow> bool" where
  "checkOffset c = (safeDecode c \<and> dictSize c < 65536)"
definition shortiend :: "params \<Rightarrow> int" where
  "shortiend c = iend c - (if on_input c then 14 else 8) - 2"
definition shortoend :: "params \<Rightarrow> int" where
  "shortoend c = oend c - (if on_input c then 14 else 8) - 18"

text \<open>The macro \<open>MIN\<close>.\<close>

definition MIN2 :: "int \<Rightarrow> int \<Rightarrow> int" where
  "MIN2 a b = (if a < b then a else b)"

definition ptr_overflow :: "int \<Rightarrow> int \<Rightarrow> bool" where
  \<comment> \<open>\<open>(uptrval)(p)+length < (uptrval)(p)\<close>, for the pointer at address \<open>a\<close>\<close>
  "ptr_overflow a len = (to_size_t (to_size_t a + len) < to_size_t a)"

subsection \<open>LZ4\_decompress\_generic: the safe loop\<close>

text \<open>
  The match that starts in the external dictionary (the same statements in both loops);
  the iteration then does \<open>continue\<close>.
\<close>

definition ext_dict_copy :: "params \<Rightarrow> dstate \<Rightarrow> int \<Rightarrow> int \<Rightarrow> step option" where
  "ext_dict_copy c st len0 match =
     (if op st + len0 > oend c - LASTLITERALS \<and> \<not> partial c then Some (Error st)
      else
        let len = (if op st + len0 > oend c - LASTLITERALS
                   then MIN2 len0 (to_size_t (oend c - op st)) else len0)
        in if len \<le> to_size_t (lowPrefix c - match) then do {
             m1 \<leftarrow> memmove (mem st) (op st) (Other (dictionary c))
                     (dictEnd c - (lowPrefix c - match)) len;
             Some (Continue \<lparr>ip = ip st, op = op st + len, mem = m1\<rparr>)
           } else do {
             let copySize = to_size_t (lowPrefix c - match);
             let restSize = len - copySize;
             m1 \<leftarrow> memcpy (mem st) (op st) (Other (dictionary c)) (dictEnd c - copySize) copySize;
             let op1 = op st + copySize;
             if restSize > to_size_t (op1 - lowPrefix c) then do {
               (m2, op2, copyFrom) \<leftarrow> byte_copy_loop m1 op1 (lowPrefix c) (op1 + restSize);
               Some (Continue \<lparr>ip = ip st, op = op2, mem = m2\<rparr>)
             } else do {
               m2 \<leftarrow> memcpy m1 op1 Self (lowPrefix c) restSize;
               Some (Continue \<lparr>ip = ip st, op = op1 + restSize, mem = m2\<rparr>)
             }
           })"

text \<open>From the label \<open>safe_match_copy\<close> to the end of the iteration.\<close>

definition safe_match_copy :: "params \<Rightarrow> dstate \<Rightarrow> int \<Rightarrow> int \<Rightarrow> int \<Rightarrow> step option" where
  "safe_match_copy c st len offset match =
     (if checkOffset c \<and> match + dictSize c < lowPrefix c then Some (Error st)
      else if dict c = usingExtDict \<and> match < lowPrefix c then ext_dict_copy c st len match
      else
        let cpy = op st + len in
        if partial c \<and> cpy > oend c - MATCH_SAFEGUARD_DISTANCE then do {
          let mlen = MIN2 len (to_size_t (oend c - op st));
          let matchEnd = match + mlen;
          let copyEnd = op st + mlen;
          m1 \<leftarrow> (if matchEnd > op st
                 then map_option fst (byte_copy_loop (mem st) (op st) match copyEnd)
                 else memcpy (mem st) (op st) Self match mlen);
          if copyEnd = oend c then Some (Break \<lparr>ip = ip st, op = copyEnd, mem = m1\<rparr>)
          else Some (Continue \<lparr>ip = ip st, op = copyEnd, mem = m1\<rparr>)
        } else do {
          (m1, match1) \<leftarrow>
            (if offset < 8 then do {
               w \<leftarrow> LZ4_write32 (mem st) (op st) 0;
               b0 \<leftarrow> copy_byte w (op st) match;
               b1 \<leftarrow> copy_byte b0 (op st + 1) (match + 1);
               b2 \<leftarrow> copy_byte b1 (op st + 2) (match + 2);
               b3 \<leftarrow> copy_byte b2 (op st + 3) (match + 3);
               m \<leftarrow> memcpy b3 (op st + 4) Self (match + inc32table ! nat offset) 4;
               Some (m, match + inc32table ! nat offset - dec64table ! nat offset)
             } else do {
               m \<leftarrow> memcpy (mem st) (op st) Self match 8;
               Some (m, match + 8)
             });
          let op1 = op st + 8;
          if cpy > oend c - MATCH_SAFEGUARD_DISTANCE then
            let oCopyLimit = oend c - (WILDCOPYLENGTH - 1) in
            if cpy > oend c - LASTLITERALS
            then Some (Error \<lparr>ip = ip st, op = op1, mem = m1\<rparr>)
            else do {
              (m2, match2, op2) \<leftarrow>
                (if op1 < oCopyLimit then do {
                   m \<leftarrow> LZ4_wildCopy8 m1 op1 Self match1 oCopyLimit;
                   Some (m, match1 + (oCopyLimit - op1), oCopyLimit)
                 } else Some (m1, match1, op1));
              (m3, op3, match3) \<leftarrow> byte_copy_loop m2 op2 match2 cpy;
              Some (Continue \<lparr>ip = ip st, op = cpy, mem = m3\<rparr>)
            }
          else do {
            m2 \<leftarrow> memcpy m1 op1 Self match1 8;
            m3 \<leftarrow> (if len > 16 then LZ4_wildCopy8 m2 (op1 + 8) Self (match1 + 8) cpy
                   else Some m2);
            Some (Continue \<lparr>ip = ip st, op = cpy, mem = m3\<rparr>)
          }
        })"

text \<open>From the label \<open>_copy_match\<close>: \<open>len\<close> is the match-length nibble of the token.\<close>

definition copy_match :: "target \<Rightarrow> params \<Rightarrow> dstate \<Rightarrow> int \<Rightarrow> int \<Rightarrow> int \<Rightarrow> step option" where
  "copy_match t c st len offset match =
     (if len = ML_MASK then do {
        (l, ip1, error) \<leftarrow> read_variable_length (input c) (ip st)
                             (iend c - LASTLITERALS + 1) (on_input c) False ok;
        let len1 = len + l;
        let st1 = st\<lparr>ip := ip1\<rparr>;
        if error \<noteq> ok then Some (Error st1)
        else if safeDecode c \<and> ptr_overflow (dstAddr t + op st) len1 then Some (Error st1)
        else safe_match_copy c st1 (len1 + MINMATCH) offset match
      } else safe_match_copy c st (len + MINMATCH) offset match)"

text \<open>\<open>get offset\<close> and \<open>get matchlength\<close>, after the literals of a sequence.\<close>

definition get_offset :: "target \<Rightarrow> params \<Rightarrow> dstate \<Rightarrow> int \<Rightarrow> step option" where
  "get_offset t c st token = do {
     offset \<leftarrow> LZ4_readLE16 (input c) (ip st);
     let match = op st - offset;
     let len = token AND ML_MASK;
     copy_match t c (st\<lparr>ip := ip st + 2\<rparr>) len offset match
   }"

text \<open>From the label \<open>safe_literal_copy\<close> to the end of the iteration.\<close>

definition safe_literal_copy :: "target \<Rightarrow> params \<Rightarrow> dstate \<Rightarrow> int \<Rightarrow> int \<Rightarrow> int \<Rightarrow> step option" where
  "safe_literal_copy t c st token len cpy =
     (if (on_input c \<and> (cpy > oend c - MFLIMIT \<or> ip st + len > iend c - (2 + 1 + LASTLITERALS)))
         \<or> (\<not> on_input c \<and> cpy > oend c - WILDCOPYLENGTH)
      then
        (if partial c then
           (if ip st + len > iend c - (2 + 1 + LASTLITERALS) \<and> ip st + len \<noteq> iend c
            then Some (Error st)
            else do {
              let cpy1 = (if cpy > oend c then oend c else cpy);
              let len1 = (if cpy > oend c then to_size_t (oend c - op st) else len);
              m1 \<leftarrow> memmove (mem st) (op st) (Other (input c)) (ip st) len1;
              let st1 = \<lparr>ip = ip st + len1, op = op st + len1, mem = m1\<rparr>;
              if cpy1 = oend c \<or> ip st1 = iend c then Some (Break st1)
              else get_offset t c st1 token
            })
         else
           (if \<not> on_input c \<and> cpy \<noteq> oend c then Some (Error st)
            else if on_input c \<and> (ip st + len \<noteq> iend c \<or> cpy > oend c) then Some (Error st)
            else do {
              m1 \<leftarrow> memmove (mem st) (op st) (Other (input c)) (ip st) len;
              Some (Break \<lparr>ip = ip st + len, op = op st + len, mem = m1\<rparr>)
            }))
      else do {
        m1 \<leftarrow> LZ4_wildCopy8 (mem st) (op st) (Other (input c)) (ip st) cpy;
        get_offset t c \<lparr>ip = ip st + len, op = cpy, mem = m1\<rparr> token
      })"

text \<open>\<open>decode literal length\<close> (the same statements in both loops), up to the overflow tests.\<close>

definition literal_length :: "target \<Rightarrow> params \<Rightarrow> dstate \<Rightarrow> int \<Rightarrow> (int \<times> dstate \<times> bool) option" where
  "literal_length t c st len = do {
     (l, ip1, error) \<leftarrow> read_variable_length (input c) (ip st) (iend c - RUN_MASK)
                          (on_input c) (on_input c) ok;
     let len1 = len + l;
     let st1 = st\<lparr>ip := ip1\<rparr>;
     Some (len1, st1,
           error = initial_error
           \<or> (safeDecode c \<and> ptr_overflow (dstAddr t + op st) len1)
           \<or> (safeDecode c \<and> ptr_overflow (srcAddr t + ip1) len1))
   }"

text \<open>One iteration of the main loop, from its first statement.\<close>

definition safe_iteration :: "target \<Rightarrow> params \<Rightarrow> dstate \<Rightarrow> step option" where
  "safe_iteration t c st = do {
     tk \<leftarrow> peek (input c) (ip st);
     let token = uint tk;
     let ip1 = ip st + 1;
     let len = drop_bit ML_BITS token;
     if (if on_input c then len \<noteq> RUN_MASK else len \<le> 8)
        \<and> ((if on_input c then ip1 < shortiend c else True) \<and> op st \<le> shortoend c)
     then do {
       m1 \<leftarrow> memcpy (mem st) (op st) (Other (input c)) ip1 (if on_input c then 16 else 8);
       let op1 = op st + len;
       let ip2 = ip1 + len;
       let mlen = token AND ML_MASK;
       offset \<leftarrow> LZ4_readLE16 (input c) ip2;
       let ip3 = ip2 + 2;
       let match = op1 - offset;
       if mlen \<noteq> ML_MASK \<and> offset \<ge> 8 \<and> (dict c = withPrefix64k \<or> match \<ge> lowPrefix c)
       then do {
         m2 \<leftarrow> memcpy m1 (op1 + 0) Self (match + 0) 8;
         m3 \<leftarrow> memcpy m2 (op1 + 8) Self (match + 8) 8;
         m4 \<leftarrow> memcpy m3 (op1 + 16) Self (match + 16) 2;
         Some (Continue \<lparr>ip = ip3, op = op1 + (mlen + MINMATCH), mem = m4\<rparr>)
       }
       else copy_match t c \<lparr>ip = ip3, op = op1, mem = m1\<rparr> mlen offset match
     }
     else if len = RUN_MASK then do {
       (len1, st1, err) \<leftarrow> literal_length t c (st\<lparr>ip := ip1\<rparr>) len;
       if err then Some (Error st1)
       else safe_literal_copy t c st1 token len1 (op st + len1)
     }
     else safe_literal_copy t c (st\<lparr>ip := ip1\<rparr>) token len (op st + len)
   }"

subsection \<open>LZ4\_decompress\_generic: the fast loop\<close>

text \<open>\<open>continue\<close> and \<open>goto _output_error\<close> of the dictionary copy, inside the fast loop.\<close>

fun in_fast_loop :: "step \<Rightarrow> fstep" where
  "in_fast_loop (Continue st) = FContinue st"
| "in_fast_loop (Error st) = FError st"
| "in_fast_loop (Break st) = InSafe (Break st)"

text \<open>The match copy of the fast loop, from the offset test before it.\<close>

definition fast_copy :: "params \<Rightarrow> dstate \<Rightarrow> int \<Rightarrow> int \<Rightarrow> int \<Rightarrow> fstep option" where
  "fast_copy c st len offset match =
     (if checkOffset c \<and> match + dictSize c < lowPrefix c then Some (FError st)
      else if dict c = usingExtDict \<and> match < lowPrefix c
        then map_option in_fast_loop (ext_dict_copy c st len match)
      else do {
        let cpy = op st + len;
        m1 \<leftarrow> (if offset < 16 then LZ4_memcpy_using_offset (mem st) (op st) match cpy offset
               else LZ4_wildCopy32 (mem st) (op st) Self match cpy);
        Some (FContinue \<lparr>ip = ip st, op = cpy, mem = m1\<rparr>)
      })"

text \<open>\<open>get offset\<close> and \<open>get matchlength\<close> of the fast loop.\<close>

definition fast_match :: "target \<Rightarrow> params \<Rightarrow> dstate \<Rightarrow> int \<Rightarrow> fstep option" where
  "fast_match t c st token = do {
     offset \<leftarrow> LZ4_readLE16 (input c) (ip st);
     let st1 = st\<lparr>ip := ip st + 2\<rparr>;
     let match = op st - offset;
     let len = token AND ML_MASK;
     if len = ML_MASK then
       (if checkOffset c \<and> match + dictSize c < lowPrefix c then Some (FError st1)
        else do {
          (l, ip2, error) \<leftarrow> read_variable_length (input c) (ip st1)
                               (iend c - LASTLITERALS + 1) (on_input c) False ok;
          let len1 = len + l;
          let st2 = st1\<lparr>ip := ip2\<rparr>;
          if error \<noteq> ok then Some (FError st2)
          else if safeDecode c \<and> ptr_overflow (dstAddr t + op st) len1 then Some (FError st2)
          else if op st + (len1 + MINMATCH) \<ge> oend c - FASTLOOP_SAFE_DISTANCE
            then map_option InSafe (safe_match_copy c st2 (len1 + MINMATCH) offset match)
          else fast_copy c st2 (len1 + MINMATCH) offset match
        })
     else
       (if op st + (len + MINMATCH) \<ge> oend c - FASTLOOP_SAFE_DISTANCE
          then map_option InSafe (safe_match_copy c st1 (len + MINMATCH) offset match)
        else if (dict c = withPrefix64k \<or> match \<ge> lowPrefix c) \<and> offset \<ge> 8 then do {
          m1 \<leftarrow> memcpy (mem st) (op st) Self match 8;
          m2 \<leftarrow> memcpy m1 (op st + 8) Self (match + 8) 8;
          m3 \<leftarrow> memcpy m2 (op st + 16) Self (match + 16) 2;
          Some (FContinue \<lparr>ip = ip st1, op = op st + (len + MINMATCH), mem = m3\<rparr>)
        }
        else fast_copy c st1 (len + MINMATCH) offset match)
   }"

text \<open>One iteration of the fast loop.\<close>

definition fast_iteration :: "target \<Rightarrow> params \<Rightarrow> dstate \<Rightarrow> fstep option" where
  "fast_iteration t c st = do {
     tk \<leftarrow> peek (input c) (ip st);
     let token = uint tk;
     let ip1 = ip st + 1;
     let len = drop_bit ML_BITS token;
     if len = RUN_MASK then do {
       (len1, st1, err) \<leftarrow> literal_length t c (st\<lparr>ip := ip1\<rparr>) len;
       let cpy = op st + len1;
       if err then Some (FError st1)
       else if on_input c then
         (if cpy > oend c - 32 \<or> ip st1 + len1 > iend c - 32
          then map_option InSafe (safe_literal_copy t c st1 token len1 cpy)
          else do {
            m1 \<leftarrow> LZ4_wildCopy32 (mem st) (op st) (Other (input c)) (ip st1) cpy;
            fast_match t c \<lparr>ip = ip st1 + len1, op = cpy, mem = m1\<rparr> token
          })
       else
         (if cpy > oend c - 8
          then map_option InSafe (safe_literal_copy t c st1 token len1 cpy)
          else do {
            m1 \<leftarrow> LZ4_wildCopy8 (mem st) (op st) (Other (input c)) (ip st1) cpy;
            fast_match t c \<lparr>ip = ip st1 + len1, op = cpy, mem = m1\<rparr> token
          })
     }
     else
       let cpy = op st + len in
       if on_input c then
         (if ip1 > iend c - (16 + 1)
          then map_option InSafe (safe_literal_copy t c (st\<lparr>ip := ip1\<rparr>) token len cpy)
          else do {
            m1 \<leftarrow> memcpy (mem st) (op st) (Other (input c)) ip1 16;
            fast_match t c \<lparr>ip = ip1 + len, op = cpy, mem = m1\<rparr> token
          })
       else do {
         m1 \<leftarrow> memcpy (mem st) (op st) (Other (input c)) ip1 8;
         m2 \<leftarrow> (if len > 8 then memcpy m1 (op st + 8) (Other (input c)) (ip1 + 8) 8 else Some m1);
         fast_match t c \<lparr>ip = ip1 + len, op = cpy, mem = m2\<rparr> token
       }
   }"

subsection \<open>The cursor advances\<close>

fun state_of :: "step \<Rightarrow> dstate" where
  "state_of (Continue st) = st"
| "state_of (Break st) = st"
| "state_of (Error st) = st"

fun fstate_of :: "fstep \<Rightarrow> dstate" where
  "fstate_of (FContinue st) = st"
| "fstate_of (FError st) = st"
| "fstate_of (InSafe r) = state_of r"

lemma to_unsigned_nonneg: "0 \<le> to_unsigned x"
  by (simp add: to_unsigned_def)

lemma to_size_t_nonneg: "0 \<le> to_size_t x"
  by (simp add: to_size_t_def)

lemma peek_SomeD: "peek buf p = Some b \<Longrightarrow> 0 \<le> p \<and> p < int (length buf)"
  by (auto simp: peek_def split: if_splits)

lemma read_variable_length_loop_advance:
  "read_variable_length_loop buf p lencheck lc len0 e0 = Some (l, q, err) \<Longrightarrow> p < q \<and> 0 \<le> l"
proof (induction buf p lencheck lc len0 e0 rule: read_variable_length_loop.induct)
  case (1 buf p lencheck loop_check len0 error)
  from "1.prems" obtain s where s: "peek buf p = Some s"
    by (subst (asm) read_variable_length_loop.simps) (auto split: option.splits)
  show ?case
  proof (cases "\<not> (loop_check \<and> p + 1 \<ge> lencheck) \<and> s = 255")
    case True
    with "1.prems" s have "read_variable_length_loop buf (p + 1) lencheck loop_check
        (to_unsigned (len0 + uint s)) error = Some (l, q, err)"
      by (subst (asm) read_variable_length_loop.simps) auto
    with "1.IH"[OF s] True show ?thesis by fastforce
  next
    case False
    with "1.prems" s have "l = to_unsigned (len0 + uint s)" "q = p + 1"
      by (subst (asm) read_variable_length_loop.simps; auto split: if_splits)+
    then show ?thesis by (simp add: to_unsigned_nonneg)
  qed
qed

lemma read_variable_length_advance:
  assumes "read_variable_length buf p lencheck lc ic e = Some (l, q, err)"
  shows "p \<le> q \<and> 0 \<le> l"
proof (cases "ic \<and> lencheck \<le> p")
  case True
  with assms show ?thesis by (simp add: read_variable_length_def)
next
  case False
  with assms have "read_variable_length_loop buf p lencheck lc 0 e = Some (l, q, err)"
    by (auto simp: read_variable_length_def)
  from read_variable_length_loop_advance[OF this] show ?thesis by simp
qed

text \<open>
  \<open>returns x Q\<close>: whatever \<open>x\<close> returns satisfies \<open>Q\<close>. The rules follow the structure of
  the definitions.
\<close>

definition returns :: "'a option \<Rightarrow> ('a \<Rightarrow> bool) \<Rightarrow> bool" where
  "returns x Q \<longleftrightarrow> (\<forall>v. x = Some v \<longrightarrow> Q v)"

lemma returnsD: "returns x Q \<Longrightarrow> x = Some v \<Longrightarrow> Q v"
  by (simp add: returns_def)

lemma returns_Some: "Q v \<Longrightarrow> returns (Some v) Q"
  by (simp add: returns_def)

lemma returns_bind: "returns x (\<lambda>v. returns (f v) Q) \<Longrightarrow> returns (x \<bind> f) Q"
  by (auto simp: returns_def bind_eq_Some_conv)

lemma returns_if: "(b \<Longrightarrow> returns x Q) \<Longrightarrow> (\<not> b \<Longrightarrow> returns y Q) \<Longrightarrow> returns (if b then x else y) Q"
  by simp

lemma returns_Let: "returns (f x) Q \<Longrightarrow> returns (Let x f) Q"
  by simp

lemma returns_case_prod: "(\<And>a b. v = (a, b) \<Longrightarrow> returns (f a b) Q) \<Longrightarrow> returns (case_prod f v) Q"
  by (cases v) simp

lemma returns_map_option: "returns x (\<lambda>v. Q (f v)) \<Longrightarrow> returns (map_option f x) Q"
  by (auto simp: returns_def)

lemma returns_any: "(\<And>v. Q v) \<Longrightarrow> returns x Q"
  by (simp add: returns_def)

lemma returns_weaken: "returns x P \<Longrightarrow> (\<And>v. P v \<Longrightarrow> Q v) \<Longrightarrow> returns x Q"
  by (auto simp: returns_def)

lemmas returns_intros = returns_Some returns_bind returns_if returns_Let returns_case_prod returns_map_option
  returns_any[of _ "memcpy m d sobj s n" for m d sobj s n]
  returns_any[of _ "memmove m d sobj s n" for m d sobj s n]
  returns_any[of _ "copy_byte m d s" for m d s]
  returns_any[of _ "LZ4_write32 m d s" for m d s]
  returns_any[of _ "LZ4_readLE16 m d" for m d]
  returns_any[of _ "LZ4_wildCopy8 m d sobj s n" for m d sobj s n]
  returns_any[of _ "LZ4_wildCopy32 m d sobj s n" for m d sobj s n]
  returns_any[of _ "byte_copy_loop m d s n" for m d s n]
  returns_any[of _ "LZ4_memcpy_using_offset m d s n k" for m d s n k]

lemma returns_peek:
  "(\<And>b. 0 \<le> p \<Longrightarrow> p < int (length buf) \<Longrightarrow> 0 \<le> uint b div 16 \<Longrightarrow> Q b) \<Longrightarrow> returns (peek buf p) Q"
  unfolding returns_def using peek_SomeD by (metis pos_imp_zdiv_nonneg_iff uint_ge_0 zero_less_numeral)

lemma returns_read_variable_length:
  "(\<And>l q err. p \<le> q \<Longrightarrow> 0 \<le> l \<Longrightarrow> Q (l, q, err)) \<Longrightarrow>
   returns (read_variable_length buf p lencheck lc ic e) Q"
  unfolding returns_def using read_variable_length_advance by fastforce

lemma ext_dict_copy_advances:
  "returns (ext_dict_copy c st len m) (\<lambda>r. ip (state_of r) = ip st)"
  unfolding ext_dict_copy_def
  by (intro returns_intros; simp)

lemma safe_match_copy_advances:
  "returns (safe_match_copy c st len offset m) (\<lambda>r. ip (state_of r) = ip st)"
  unfolding safe_match_copy_def
  by (intro returns_intros ext_dict_copy_advances; simp)

lemma copy_match_advances:
  "returns (copy_match t c st len offset m) (\<lambda>r. ip st \<le> ip (state_of r))"
  unfolding copy_match_def
  by (intro returns_intros returns_read_variable_length 
      returns_weaken[OF safe_match_copy_advances]; simp)

lemma get_offset_advances:
  "returns (get_offset t c st token) (\<lambda>r. ip st + 2 \<le> ip (state_of r))"
  unfolding get_offset_def
  by (intro returns_intros returns_weaken[OF copy_match_advances]; simp)

lemma safe_literal_copy_advances:
  "0 \<le> len \<Longrightarrow> returns (safe_literal_copy t c st token len cpy) (\<lambda>r. ip st \<le> ip (state_of r))"
  unfolding safe_literal_copy_def
  using to_size_t_nonneg[of "oend c - op st"]
  by (intro returns_intros returns_weaken[OF get_offset_advances]; simp split: if_splits)

lemma literal_length_advances:
  "0 \<le> len \<Longrightarrow> returns (literal_length t c st len) (\<lambda>(len1, st1, err). ip st \<le> ip st1 \<and> 0 \<le> len1)"
  unfolding literal_length_def
  by (intro returns_intros returns_read_variable_length; simp)

lemma safe_iteration_advances:
  "returns (safe_iteration t c st) (\<lambda>r. ip st < ip (state_of r) \<and> 0 \<le> ip st \<and> ip st < int (length (input c)))"
  unfolding safe_iteration_def
  by (intro returns_intros returns_peek returns_weaken[OF copy_match_advances] returns_weaken[OF safe_literal_copy_advances]
     returns_weaken[OF literal_length_advances]; (simp; fail)?)
     (auto simp: drop_bit_eq_div simp del: pos_imp_zdiv_nonneg_iff)

lemma fstate_of_in_fast_loop [simp]: "fstate_of (in_fast_loop z) = state_of z"
  by (cases z) simp_all

lemma fast_copy_advances:
  "returns (fast_copy c st len offset m) (\<lambda>r. ip (fstate_of r) = ip st)"
  unfolding fast_copy_def
  by (intro returns_intros returns_weaken[OF ext_dict_copy_advances]; simp)

lemma fast_match_advances:
  "returns (fast_match t c st token) (\<lambda>r. ip st + 2 \<le> ip (fstate_of r))"
  unfolding fast_match_def
  by (intro returns_intros returns_read_variable_length returns_weaken[OF fast_copy_advances]
      returns_weaken[OF safe_match_copy_advances]; simp)

lemma fast_iteration_advances:
  "returns (fast_iteration t c st) (\<lambda>r. ip st < ip (fstate_of r) \<and> 0 \<le> ip st \<and> ip st < int (length (input c)))"
  unfolding fast_iteration_def
  by (intro returns_intros returns_peek returns_weaken[OF fast_match_advances] returns_weaken[OF safe_literal_copy_advances]
     returns_weaken[OF literal_length_advances]; (simp; fail)?)
     (auto simp: drop_bit_eq_div simp del: pos_imp_zdiv_nonneg_iff)


lemma safe_iteration_ip:
  assumes "safe_iteration t c st = Some r"
  shows "ip st < ip (state_of r) \<and> 0 \<le> ip st \<and> ip st < int (length (input c))"
  using returnsD[OF safe_iteration_advances assms] .

lemma fast_iteration_ip:
  assumes "fast_iteration t c st = Some r"
  shows "ip st < ip (fstate_of r) \<and> 0 \<le> ip st \<and> ip st < int (length (input c))"
  using returnsD[OF fast_iteration_advances assms] .

subsection \<open>LZ4\_decompress\_generic: the two loops and the function\<close>

text \<open>\<open>while (1)\<close> of the main loop, from the label \<open>safe_decode\<close>.\<close>

function safe_decode :: "target \<Rightarrow> params \<Rightarrow> dstate \<Rightarrow> exit option" where
  "safe_decode t c st =
     (case safe_iteration t c st of
        None \<Rightarrow> None
      | Some (Continue st') \<Rightarrow> safe_decode t c st'
      | Some (Break st') \<Rightarrow> Some (EndOfDecoding st')
      | Some (Error st') \<Rightarrow> Some (OutputError st'))"
  by pat_completeness auto
termination
proof (relation "measure (\<lambda>(t, c, st). nat (int (length (input c)) - ip st))")
  show "wf (measure (\<lambda>(t, c, st). nat (int (length (input c)) - ip st)))" by simp
next
  fix t c st r st'
  assume "safe_iteration t c st = Some r" and "r = Continue st'"
  with safe_iteration_ip[of t c st r]
  show "((t, c, st'), (t, c, st)) \<in> measure (\<lambda>(t, c, st). nat (int (length (input c)) - ip st))"
    by simp
qed

text \<open>Where an iteration that the fast loop handed over to the main loop's code leaves off.\<close>

definition resume :: "target \<Rightarrow> params \<Rightarrow> step \<Rightarrow> exit option" where
  "resume t c r =
     (case r of
        Continue st \<Rightarrow> safe_decode t c st
      | Break st \<Rightarrow> Some (EndOfDecoding st)
      | Error st \<Rightarrow> Some (OutputError st))"

text \<open>\<open>while (1)\<close> of the fast loop.\<close>

function fast_loop :: "target \<Rightarrow> params \<Rightarrow> dstate \<Rightarrow> exit option" where
  "fast_loop t c st =
     (case fast_iteration t c st of
        None \<Rightarrow> None
      | Some (FContinue st') \<Rightarrow> fast_loop t c st'
      | Some (FError st') \<Rightarrow> Some (OutputError st')
      | Some (InSafe r) \<Rightarrow> resume t c r)"
  by pat_completeness auto
termination
proof (relation "measure (\<lambda>(t, c, st). nat (int (length (input c)) - ip st))")
  show "wf (measure (\<lambda>(t, c, st). nat (int (length (input c)) - ip st)))" by simp
next
  fix t c st r st'
  assume "fast_iteration t c st = Some r" and "r = FContinue st'"
  with fast_iteration_ip[of t c st r]
  show "((t, c, st'), (t, c, st)) \<in> measure (\<lambda>(t, c, st). nat (int (length (input c)) - ip st))"
    by simp
qed

text \<open>
  Both loops, entered with \<open>ip = src\<close> and \<open>op = dst\<close>: the fast loop unless it is compiled
  out or fewer than \<open>FASTLOOP_SAFE_DISTANCE\<close> bytes of output are left.
\<close>

definition decode_sequences :: "target \<Rightarrow> params \<Rightarrow> byte list \<Rightarrow> exit option" where
  "decode_sequences t c m =
     (let st0 = \<lparr>ip = 0, op = dst c, mem = m\<rparr>
      in if LZ4_FAST_DEC_LOOP t \<and> \<not> (oend c - op st0 < FASTLOOP_SAFE_DISTANCE)
         then fast_loop t c st0 else safe_decode t c st0)"

text \<open>
  The two \<open>return\<close> statements after the loops: \<open>end of decoding\<close>, and the label
  \<open>_output_error\<close>; \<open>src\<close> is index 0 of the input.
\<close>

definition end_of_decoding :: "params \<Rightarrow> dstate \<Rightarrow> int" where
  "end_of_decoding c st = (if on_input c then to_int (op st - dst c) else to_int (ip st - 0))"

definition output_error :: "dstate \<Rightarrow> int" where
  "output_error st = to_int (- (ip st - 0)) - 1"

definition LZ4_decompress_generic :: "target \<Rightarrow> params \<Rightarrow> byte list \<Rightarrow> (int \<times> byte list) option" where
  "LZ4_decompress_generic t c m =
     (if src c = None then Some (- 1, m)
      else if on_input c \<and> outputSize c = 0 then
        (if partial c then Some (0, m)
         else if srcSize c = 1
           then do { b \<leftarrow> peek (input c) 0; Some (if b = 0 then 0 else - 1, m) }
         else Some (- 1, m))
      else if \<not> on_input c \<and> outputSize c = 0
        then do { b \<leftarrow> peek (input c) 0; Some (if b = 0 then 1 else - 1, m) }
      else if on_input c \<and> srcSize c = 0 then Some (- 1, m)
      else do {
        e \<leftarrow> decode_sequences t c m;
        case e of
          EndOfDecoding st \<Rightarrow> Some (end_of_decoding c st, mem st)
        | OutputError st \<Rightarrow> Some (output_error st, mem st)
      })"

text \<open>
  \<open>LZ4_decompress_safe\<close>: \<open>source\<close> is the input (\<open>None\<close> is \<open>NULL\<close>) and \<open>dest\<close> the
  destination buffer, which is the whole output object.
\<close>

definition LZ4_decompress_safe ::
  "target \<Rightarrow> byte list option \<Rightarrow> byte list \<Rightarrow> int \<Rightarrow> int \<Rightarrow> (int \<times> byte list) option" where
  "LZ4_decompress_safe t source dest compressedSize maxDecompressedSize =
     LZ4_decompress_generic t
       \<lparr>src = source, dst = 0, srcSize = compressedSize, outputSize = maxDecompressedSize,
        endOnInput = endOnInputSize, partialDecoding = decode_full_block, dict = noDict,
        lowPrefix = 0, dictStart = None, dictSize = 0\<rparr>
       dest"

fun exit_state :: "exit \<Rightarrow> dstate" where
  "exit_state (EndOfDecoding st) = st"
| "exit_state (OutputError st) = st"

subsection \<open>The bounds-checked configuration\<close>

text \<open>
  The arguments \<open>LZ4_decompress_safe\<close> passes on: the input is a buffer of exactly
  \<open>srcSize\<close> bytes, and \<open>dst\<close> is the start of the output object, with no prefix and no
  dictionary.
\<close>

definition bounds_checked :: "params \<Rightarrow> bool" where
  "bounds_checked c \<longleftrightarrow>
     src c \<noteq> None \<and> srcSize c = int (length (input c)) \<and>
     endOnInput c = endOnInputSize \<and> partialDecoding c = decode_full_block \<and>
     dict c = noDict \<and> dst c = 0 \<and> lowPrefix c = 0 \<and> dictSize c = 0"

text \<open>
  The invariant of both loops: the output object keeps the declared capacity and both cursors
  are inside their buffers (one past the end at most).
\<close>

definition inv :: "params \<Rightarrow> dstate \<Rightarrow> bool" where
  "inv c st \<longleftrightarrow>
     int (length (mem st)) = outputSize c \<and>
     0 \<le> ip st \<and> ip st \<le> srcSize c \<and> 0 \<le> op st \<and> op st \<le> outputSize c"

text \<open>\<open>succeeds x Q\<close>: \<open>x\<close> returns, with no access outside a buffer, a value that satisfies \<open>Q\<close>.\<close>

definition succeeds :: "'a option \<Rightarrow> ('a \<Rightarrow> bool) \<Rightarrow> bool" where
  "succeeds x Q \<longleftrightarrow> (\<exists>v. x = Some v \<and> Q v)"


section \<open>Properties\<close>

subsection \<open>Integer conversions\<close>

lemma to_unsigned_neg: "- (2 ^ 32) \<le> n \<Longrightarrow> n < 0 \<Longrightarrow> to_unsigned n = n + 2 ^ 32"
proof -
  assume a: "- (2 ^ 32) \<le> n" "n < 0"
  have "n mod 2 ^ 32 = (n + 2 ^ 32) mod 2 ^ 32" by simp
  also have "\<dots> = n + 2 ^ 32" using a by (intro mod_pos_pos_trivial) auto
  finally show ?thesis by (simp add: to_unsigned_def)
qed

lemma to_unsigned_id: "0 \<le> n \<Longrightarrow> n < 2 ^ 32 \<Longrightarrow> to_unsigned n = n"
  unfolding to_unsigned_def by simp

lemma to_int_id: "- (2 ^ 31) \<le> n \<Longrightarrow> n < 2 ^ 31 \<Longrightarrow> to_int n = n"
  unfolding to_int_def by simp

lemma uint_byte_lt: "uint (s :: byte) < 256"
  using uint_lt2p[of s] by simp


subsection \<open>LZ4\_compressBound\<close>

text \<open>
  C5. For every \<open>int\<close> \<open>inputSize\<close> with \<open>0 \<le> inputSize \<le> 2113929216\<close>
  (\<open>LZ4_MAX_INPUT_SIZE\<close>), \<open>LZ4_compressBound inputSize\<close> is
  \<open>inputSize + inputSize / 255 + 16\<close>; for every negative \<open>inputSize\<close> and every one above
  \<open>LZ4_MAX_INPUT_SIZE\<close> it is 0.
\<close>

theorem LZ4_compressBound_value:
  assumes "INT_MIN \<le> inputSize" and "inputSize \<le> INT_MAX"
  shows "LZ4_MAX_INPUT_SIZE = 2113929216 \<and>
         LZ4_compressBound inputSize =
           (if 0 \<le> inputSize \<and> inputSize \<le> LZ4_MAX_INPUT_SIZE
            then inputSize + inputSize div 255 + 16 else 0)"
proof (cases "0 \<le> inputSize \<and> inputSize \<le> 2113929216")
  case True
  then show ?thesis
    unfolding LZ4_compressBound_def LZ4_COMPRESSBOUND_def LZ4_MAX_INPUT_SIZE_def c_div_def
    by (auto simp: sgn_if to_unsigned_id to_int_id)
next
  case False
  with assms show ?thesis
    unfolding LZ4_compressBound_def LZ4_COMPRESSBOUND_def LZ4_MAX_INPUT_SIZE_def
      INT_MIN_def INT_MAX_def
    by (auto simp: to_unsigned_id to_unsigned_neg)
qed

theorem LZ4_compressBound_value_witness:
  "INT_MIN \<le> 1000 \<and> 1000 \<le> INT_MAX \<and> LZ4_compressBound 1000 = 1019 \<and>
   INT_MIN \<le> - 1 \<and> - 1 \<le> INT_MAX \<and> LZ4_compressBound (- 1) = 0"
proof -
  have h: "INT_MIN \<le> 1000" "1000 \<le> INT_MAX" "INT_MIN \<le> - 1" "- 1 \<le> INT_MAX"
    by (simp_all add: INT_MIN_def INT_MAX_def)
  show ?thesis
    using h LZ4_compressBound_value [OF h(1,2)] LZ4_compressBound_value [OF h(3,4)]
    by simp
qed

subsection \<open>read\_variable\_length\<close>






subsection \<open>Memory safety: the copy primitives\<close>

lemma succeedsD: "succeeds x Q \<Longrightarrow> \<exists>v. x = Some v \<and> Q v"
  by (simp add: succeeds_def)

lemma succeeds_Some: "Q v \<Longrightarrow> succeeds (Some v) Q"
  by (simp add: succeeds_def)

lemma succeeds_bind: "succeeds x (\<lambda>v. succeeds (f v) Q) \<Longrightarrow> succeeds (x \<bind> f) Q"
  by (auto simp: succeeds_def)

lemma succeeds_if: "(b \<Longrightarrow> succeeds x Q) \<Longrightarrow> (\<not> b \<Longrightarrow> succeeds y Q) \<Longrightarrow> succeeds (if b then x else y) Q"
  by simp

lemma succeeds_Let: "succeeds (f x) Q \<Longrightarrow> succeeds (Let x f) Q"
  by simp

lemma succeeds_case_prod: "(\<And>a b. v = (a, b) \<Longrightarrow> succeeds (f a b) Q) \<Longrightarrow> succeeds (case_prod f v) Q"
  by (cases v) simp

lemma succeeds_map_option: "succeeds x (\<lambda>v. Q (f v)) \<Longrightarrow> succeeds (map_option f x) Q"
  by (auto simp: succeeds_def)

lemma succeeds_weaken: "succeeds x P \<Longrightarrow> (\<And>v. P v \<Longrightarrow> Q v) \<Longrightarrow> succeeds x Q"
  by (auto simp: succeeds_def)

lemmas succeeds_intros = succeeds_Some succeeds_bind succeeds_if succeeds_Let succeeds_case_prod succeeds_map_option

lemma succeeds_peek:
  "0 \<le> p \<Longrightarrow> p < int (length buf) \<Longrightarrow> (\<And>b. Q b) \<Longrightarrow> succeeds (peek buf p) Q"
  by (simp add: succeeds_def peek_def)

lemma succeeds_load:
  "0 \<le> n \<Longrightarrow> 0 \<le> p \<Longrightarrow> p + n \<le> int (length buf) \<Longrightarrow>
   (\<And>bs. int (length bs) = n \<Longrightarrow> Q bs) \<Longrightarrow> succeeds (load buf p n) Q"
  by (auto simp: succeeds_def load_def)

lemma succeeds_store:
  "0 \<le> p \<Longrightarrow> p + int (length bs) \<le> int (length buf) \<Longrightarrow>
   (\<And>m. length m = length buf \<Longrightarrow> Q m) \<Longrightarrow> succeeds (store buf p bs) Q"
  by (auto simp: succeeds_def store_def)

lemma succeeds_memcpy:
  "0 \<le> n \<Longrightarrow> 0 \<le> d \<Longrightarrow> d + n \<le> int (length m) \<Longrightarrow> 0 \<le> s \<Longrightarrow>
   s + n \<le> int (length (bytes_of sobj m)) \<Longrightarrow>
   (\<And>m'. length m' = length m \<Longrightarrow> Q m') \<Longrightarrow> succeeds (memcpy m d sobj s n) Q"
  unfolding memcpy_def
  by (rule succeeds_bind, rule succeeds_load; simp?) (rule succeeds_store; simp)

lemma succeeds_memmove:
  "0 \<le> n \<Longrightarrow> 0 \<le> d \<Longrightarrow> d + n \<le> int (length m) \<Longrightarrow> 0 \<le> s \<Longrightarrow>
   s + n \<le> int (length (bytes_of sobj m)) \<Longrightarrow>
   (\<And>m'. length m' = length m \<Longrightarrow> Q m') \<Longrightarrow> succeeds (memmove m d sobj s n) Q"
  unfolding memmove_def
  by (rule succeeds_bind, rule succeeds_load; simp?) (rule succeeds_store; simp)

lemma succeeds_copy_byte:
  "0 \<le> d \<Longrightarrow> d < int (length m) \<Longrightarrow> 0 \<le> s \<Longrightarrow> s < int (length m) \<Longrightarrow>
   (\<And>m'. length m' = length m \<Longrightarrow> Q m') \<Longrightarrow> succeeds (copy_byte m d s) Q"
  unfolding copy_byte_def
  by (rule succeeds_bind, rule succeeds_peek; simp?) (rule succeeds_store; simp)

lemma succeeds_LZ4_write32:
  "0 \<le> p \<Longrightarrow> p + 4 \<le> int (length m) \<Longrightarrow>
   (\<And>m'. length m' = length m \<Longrightarrow> Q m') \<Longrightarrow> succeeds (LZ4_write32 m p v) Q"
  unfolding LZ4_write32_def
  by (rule succeeds_store; simp)

lemma succeeds_LZ4_readLE16:
  "0 \<le> p \<Longrightarrow> p + 2 \<le> int (length buf) \<Longrightarrow>
   (\<And>v. 0 \<le> v \<Longrightarrow> v < 65536 \<Longrightarrow> Q v) \<Longrightarrow> succeeds (LZ4_readLE16 buf p) Q"
  unfolding LZ4_readLE16_def
  apply (rule succeeds_bind, rule succeeds_load; simp?)
  apply (rule succeeds_Some)
  subgoal premises prems for bs
    using uint_byte_lt[of "bs ! 0"] uint_byte_lt[of "bs ! 1"] 
    by (intro prems(3)) (auto)
  done

lemma succeeds_LZ4_wildCopy8_Self:
  "0 \<le> s \<Longrightarrow> s \<le> d \<Longrightarrow> d + 8 \<le> int (length m) \<Longrightarrow> e + 7 \<le> int (length m) \<Longrightarrow>
   (\<And>m'. length m' = length m \<Longrightarrow> Q m') \<Longrightarrow> succeeds (LZ4_wildCopy8 m d Self s e) Q"
proof (induction m d Self s e rule: LZ4_wildCopy8.induct)
  case (1 mem d s e)
  have "succeeds (memcpy mem d Self s 8) (\<lambda>m'. length m' = length mem)"
    using "1.prems" by (intro succeeds_memcpy) (auto simp: bytes_of_def)
  then obtain m1 where m1: "memcpy mem d Self s 8 = Some m1" "length m1 = length mem"
    by (auto simp: succeeds_def)
  show ?case
  proof (cases "d + 8 < e")
    case True
    have "succeeds (LZ4_wildCopy8 m1 (d + 8) Self (s + 8) e) Q"
      using "1.prems" m1(2) True by (intro "1.hyps"[OF m1(1) True]) auto
    with m1 True show ?thesis by (subst LZ4_wildCopy8.simps) simp
  next
    case False
    with m1 "1.prems"(5)[of m1] show ?thesis by (subst LZ4_wildCopy8.simps) (simp add: succeeds_def)
  qed
qed

lemma succeeds_LZ4_wildCopy8_Other:
  "0 \<le> s \<Longrightarrow> s + 8 \<le> int (length buf) \<Longrightarrow> s + (e - d) + 7 \<le> int (length buf) \<Longrightarrow>
   0 \<le> d \<Longrightarrow> d + 8 \<le> int (length m) \<Longrightarrow> e + 7 \<le> int (length m) \<Longrightarrow>
   (\<And>m'. length m' = length m \<Longrightarrow> Q m') \<Longrightarrow> succeeds (LZ4_wildCopy8 m d (Other buf) s e) Q"
proof (induction m d "Other buf" s e rule: LZ4_wildCopy8.induct)
  case (1 mem d s e)
  have "succeeds (memcpy mem d (Other buf) s 8) (\<lambda>m'. length m' = length mem)"
    using "1.prems" by (intro succeeds_memcpy) (auto simp: bytes_of_def)
  then obtain m1 where m1: "memcpy mem d (Other buf) s 8 = Some m1" "length m1 = length mem"
    by (auto simp: succeeds_def)
  show ?case
  proof (cases "d + 8 < e")
    case True
    have "succeeds (LZ4_wildCopy8 m1 (d + 8) (Other buf) (s + 8) e) Q"
      using "1.prems" m1(2) True by (intro "1.hyps"[OF m1(1) True]) auto
    with m1 True show ?thesis by (subst LZ4_wildCopy8.simps) simp
  next
    case False
    with m1 "1.prems"(7)[of m1] show ?thesis by (subst LZ4_wildCopy8.simps) (simp add: succeeds_def)
  qed
qed

lemma succeeds_LZ4_wildCopy32_Self:
  "0 \<le> s \<Longrightarrow> s \<le> d \<Longrightarrow> d + 32 \<le> int (length m) \<Longrightarrow> e + 31 \<le> int (length m) \<Longrightarrow>
   (\<And>m'. length m' = length m \<Longrightarrow> Q m') \<Longrightarrow> succeeds (LZ4_wildCopy32 m d Self s e) Q"
proof (induction m d Self s e rule: LZ4_wildCopy32.induct)
  case (1 mem d s e)
  have "succeeds (memcpy mem d Self s 16) (\<lambda>m'. length m' = length mem)"
    using "1.prems" by (intro succeeds_memcpy) (auto simp: bytes_of_def)
  then obtain m1 where m1: "memcpy mem d Self s 16 = Some m1" "length m1 = length mem"
    by (auto simp: succeeds_def)
  have "succeeds (memcpy m1 (d + 16) Self (s + 16) 16) (\<lambda>m'. length m' = length mem)"
    using "1.prems" m1(2) by (intro succeeds_memcpy) (auto simp: bytes_of_def)
  then obtain m2 where m2: "memcpy m1 (d + 16) Self (s + 16) 16 = Some m2" "length m2 = length mem"
    by (auto simp: succeeds_def)
  show ?case
  proof (cases "d + 32 < e")
    case True
    have "succeeds (LZ4_wildCopy32 m2 (d + 32) Self (s + 32) e) Q"
      using "1.prems" m2(2) True by (intro "1.hyps"[OF m1(1) m2(1) True]) auto
    with m1 m2 True show ?thesis by (subst LZ4_wildCopy32.simps) simp
  next
    case False
    with m1 m2 "1.prems"(5)[of m2] show ?thesis by (subst LZ4_wildCopy32.simps) (simp add: succeeds_def)
  qed
qed

lemma succeeds_LZ4_wildCopy32_Other:
  "0 \<le> s \<Longrightarrow> s + 32 \<le> int (length buf) \<Longrightarrow> s + (e - d) + 31 \<le> int (length buf) \<Longrightarrow>
   0 \<le> d \<Longrightarrow> d + 32 \<le> int (length m) \<Longrightarrow> e + 31 \<le> int (length m) \<Longrightarrow>
   (\<And>m'. length m' = length m \<Longrightarrow> Q m') \<Longrightarrow> succeeds (LZ4_wildCopy32 m d (Other buf) s e) Q"
proof (induction m d "Other buf" s e rule: LZ4_wildCopy32.induct)
  case (1 mem d s e)
  have "succeeds (memcpy mem d (Other buf) s 16) (\<lambda>m'. length m' = length mem)"
    using "1.prems" by (intro succeeds_memcpy) (auto simp: bytes_of_def)
  then obtain m1 where m1: "memcpy mem d (Other buf) s 16 = Some m1" "length m1 = length mem"
    by (auto simp: succeeds_def)
  have "succeeds (memcpy m1 (d + 16) (Other buf) (s + 16) 16) (\<lambda>m'. length m' = length mem)"
    using "1.prems" m1(2) by (intro succeeds_memcpy) (auto simp: bytes_of_def)
  then obtain m2 where m2: "memcpy m1 (d + 16) (Other buf) (s + 16) 16 = Some m2" "length m2 = length mem"
    by (auto simp: succeeds_def)
  show ?case
  proof (cases "d + 32 < e")
    case True
    have "succeeds (LZ4_wildCopy32 m2 (d + 32) (Other buf) (s + 32) e) Q"
      using "1.prems" m2(2) True by (intro "1.hyps"[OF m1(1) m2(1) True]) auto
    with m1 m2 True show ?thesis by (subst LZ4_wildCopy32.simps) simp
  next
    case False
    with m1 m2 "1.prems"(7)[of m2] show ?thesis by (subst LZ4_wildCopy32.simps) (simp add: succeeds_def)
  qed
qed

lemma succeeds_byte_copy_loop:
  "0 \<le> s \<Longrightarrow> s \<le> d \<Longrightarrow> e \<le> int (length m) \<Longrightarrow>
   (\<And>m' d' s'. length m' = length m \<Longrightarrow> Q (m', d', s')) \<Longrightarrow> succeeds (byte_copy_loop m d s e) Q"
proof (induction m d s e rule: byte_copy_loop.induct)
  case (1 mem d s e)
  show ?case
  proof (cases "d < e")
    case True
    have "succeeds (copy_byte mem d s) (\<lambda>m'. length m' = length mem)"
      using "1.prems" True by (intro succeeds_copy_byte) auto
    then obtain m1 where m1: "copy_byte mem d s = Some m1" "length m1 = length mem"
      by (auto simp: succeeds_def)
    have "succeeds (byte_copy_loop m1 (d + 1) (s + 1) e) Q"
      using "1.prems" m1(2) True by (intro "1.IH"[OF True m1(1)]) auto
    with m1 True show ?thesis by (subst byte_copy_loop.simps) simp
  next
    case False
    with "1.prems"(4)[of mem d s] show ?thesis by (subst byte_copy_loop.simps) (simp add: succeeds_def)
  qed
qed

lemma succeeds_pattern_loop:
  "length v = 8 \<Longrightarrow> 0 \<le> d \<Longrightarrow> e + 7 \<le> int (length m) \<Longrightarrow>
   (\<And>m'. length m' = length m \<Longrightarrow> Q m') \<Longrightarrow> succeeds (pattern_loop m d e v) Q"
proof (induction m d e v rule: pattern_loop.induct)
  case (1 mem d e v)
  show ?case
  proof (cases "d < e")
    case True
    have "succeeds (store mem d v) (\<lambda>m'. length m' = length mem)"
      using "1.prems" True by (intro succeeds_store) auto
    then obtain m1 where m1: "store mem d v = Some m1" "length m1 = length mem"
      by (auto simp: succeeds_def)
    have "succeeds (pattern_loop m1 (d + 8) e v) Q"
      using "1.prems" m1(2) True by (intro "1.IH"[OF True m1(1)]) auto
    with m1 True show ?thesis by (subst pattern_loop.simps) simp
  next
    case False
    with "1.prems"(4)[of mem] show ?thesis by (subst pattern_loop.simps) (simp add: succeeds_def)
  qed
qed

lemma offset_tables:
  assumes "0 \<le> offset" "offset < 8"
  shows "0 \<le> inc32table ! nat offset \<and> inc32table ! nat offset \<le> offset \<and>
         0 \<le> inc32table ! nat offset - dec64table ! nat offset \<and>
         inc32table ! nat offset - dec64table ! nat offset \<le> offset"
proof -
  from assms have "offset = 0 \<or> offset = 1 \<or> offset = 2 \<or> offset = 3 \<or> offset = 4 \<or> offset = 5
      \<or> offset = 6 \<or> offset = 7" by arith
  then show ?thesis
    by (elim disjE) (simp_all add: inc32table_def dec64table_def)
qed

subsection \<open>Memory safety: the main loop\<close>

lemma succeeds_LZ4_memcpy_using_offset_base:
  assumes "0 \<le> offset" "srcPtr = dstPtr - offset" "0 \<le> srcPtr"
    "dstPtr + 16 \<le> int (length m)" "dstEnd + 7 \<le> int (length m)"
    "\<And>m'. length m' = length m \<Longrightarrow> Q m'"
  shows "succeeds (LZ4_memcpy_using_offset_base m dstPtr srcPtr dstEnd offset) Q"
proof (cases "offset < 8")
  case True
  note tb = offset_tables[OF assms(1) True]
  show ?thesis
    unfolding LZ4_memcpy_using_offset_base_def
    using assms(1-5) True tb
    by (intro succeeds_intros succeeds_copy_byte succeeds_memcpy succeeds_LZ4_wildCopy8_Self assms(6);
        simp add: bytes_of_def)
next
  case False
  show ?thesis
    unfolding LZ4_memcpy_using_offset_base_def
    using assms(1-5) False
    by (intro succeeds_intros succeeds_copy_byte succeeds_memcpy succeeds_LZ4_wildCopy8_Self assms(6);
        simp add: bytes_of_def)
qed

lemma succeeds_LZ4_memcpy_using_offset:
  assumes "0 \<le> offset" "srcPtr = dstPtr - offset" "0 \<le> srcPtr"
    "dstPtr + 16 \<le> int (length m)" "dstEnd + 7 \<le> int (length m)"
    "\<And>m'. length m' = length m \<Longrightarrow> Q m'"
  shows "succeeds (LZ4_memcpy_using_offset m dstPtr srcPtr dstEnd offset) Q"
  unfolding LZ4_memcpy_using_offset_def
  using assms(1-5)
  by (intro succeeds_intros succeeds_LZ4_write32 succeeds_LZ4_memcpy_using_offset_base
        succeeds_peek succeeds_load succeeds_store succeeds_pattern_loop assms(6);
      simp)

lemma bounds_checkedD:
  assumes "bounds_checked c"
  shows "iend c = int (length (input c))" "oend c = outputSize c" "checkOffset c" "safeDecode c"
    "shortiend c = int (length (input c)) - 16" "shortoend c = outputSize c - 32"
    "endOnInput c = endOnInputSize" "partialDecoding c = decode_full_block"
    "dict c = noDict" "lowPrefix c = 0" "dictSize c = 0" "dst c = 0"
    "srcSize c = int (length (input c))"
  using assms
  by (simp_all add: bounds_checked_def iend_def oend_def checkOffset_def safeDecode_def
      shortiend_def shortoend_def)

lemma and_15_bounds: "0 \<le> (x::int) \<Longrightarrow> 0 \<le> x AND 15 \<and> x AND 15 \<le> 15"
  by (simp add: AND_upper2')

lemma token_bounds:
  "0 \<le> uint (tk :: byte) AND 15 \<and> uint tk AND 15 \<le> 15 \<and>
   0 \<le> drop_bit 4 (uint tk) \<and> drop_bit 4 (uint tk) \<le> 15"
proof -
  have "0 \<le> uint tk" "uint tk < 256" using uint_byte_lt[of tk] by simp_all
  then have "0 \<le> uint tk div 16 \<and> uint tk div 16 \<le> 15" by arith
  then show ?thesis by (simp add: AND_upper2' drop_bit_eq_div)
qed

text \<open>The match copy of the main loop stays inside the output.\<close>

lemma succeeds_safe_match_copy:
  assumes bc: "bounds_checked c"
    and pre: "int (length (mem st)) = outputSize c" "0 \<le> op st" "op st + 8 \<le> outputSize c"
      "0 \<le> offset" "match = op st - offset" "4 \<le> len"
    and post: "\<And>r. int (length (mem (state_of r))) = outputSize c \<Longrightarrow> ip (state_of r) = ip st \<Longrightarrow>
        0 \<le> op (state_of r) \<Longrightarrow> op (state_of r) \<le> outputSize c \<Longrightarrow> (\<forall>s. r \<noteq> Break s) \<Longrightarrow> Q r"
  shows "succeeds (safe_match_copy c st len offset match) Q"
proof (cases "offset < 8")
  case True
  note tb = offset_tables[OF pre(4) True]
  show ?thesis
    unfolding safe_match_copy_def
    using pre True tb
    by (intro succeeds_intros succeeds_copy_byte succeeds_memcpy succeeds_LZ4_wildCopy8_Self
          succeeds_LZ4_write32 succeeds_byte_copy_loop post;
        simp add: bytes_of_def bounds_checkedD[OF bc])
next
  case False
  show ?thesis
    unfolding safe_match_copy_def
    using pre False
    by (intro succeeds_intros succeeds_copy_byte succeeds_memcpy succeeds_LZ4_wildCopy8_Self
          succeeds_LZ4_write32 succeeds_byte_copy_loop post;
        simp add: bytes_of_def bounds_checkedD[OF bc])
qed

lemma succeeds_read_variable_length_loop:
  "0 \<le> p \<Longrightarrow> p < int (length buf) \<Longrightarrow> lencheck \<le> int (length buf) \<Longrightarrow>
   (\<And>l q err. p < q \<Longrightarrow> 0 \<le> l \<Longrightarrow> q \<le> int (length buf) \<Longrightarrow>
      (err = ok \<and> q < lencheck) \<or> (err = loop_error \<and> lencheck \<le> q \<and> q \<le> max (p + 1) lencheck) \<Longrightarrow>
      Q (l, q, err)) \<Longrightarrow>
   succeeds (read_variable_length_loop buf p lencheck True len0 ok) Q"
proof (induction buf p lencheck True len0 ok arbitrary: Q rule: read_variable_length_loop.induct)
  case (1 buf p lencheck len0)
  from "1.prems"(1,2) obtain s where s: "peek buf p = Some s"
    by (auto simp: peek_def)
  show ?case
  proof (cases "p + 1 \<ge> lencheck")
    case True
    have "Q (to_unsigned (len0 + uint s), p + 1, loop_error)"
      using "1.prems"(1-3) True by (intro "1.prems"(4)) (auto simp: to_unsigned_nonneg)
    with s True show ?thesis
      by (subst read_variable_length_loop.simps) (simp add: succeeds_def)
  next
    case nl: False
    show ?thesis
    proof (cases "s = 255")
      case True
      have "succeeds (read_variable_length_loop buf (p + 1) lencheck True (to_unsigned (len0 + uint s)) ok) Q"
      proof (rule "1.hyps"[OF s _ True])
        show "\<not> (True \<and> lencheck \<le> p + 1)" using nl by simp
        show "0 \<le> p + 1" "p + 1 < int (length buf)" "lencheck \<le> int (length buf)"
          using "1.prems"(1-3) nl by auto
        fix l :: int and q err
        assume "p + 1 < q" "0 \<le> l" "q \<le> int (length buf)"
          "err = ok \<and> q < lencheck \<or> err = loop_error \<and> lencheck \<le> q \<and> q \<le> max (p + 1 + 1) lencheck"
        then show "Q (l, q, err)" using nl by (intro "1.prems"(4)) auto
      qed
      with s nl True show ?thesis
        by (subst read_variable_length_loop.simps) simp
    next
      case False
      have "Q (to_unsigned (len0 + uint s), p + 1, ok)"
        using "1.prems"(1-3) nl by (intro "1.prems"(4)) (auto simp: to_unsigned_nonneg)
      with s nl False show ?thesis
        by (subst read_variable_length_loop.simps) (simp add: succeeds_def)
    qed
  qed
qed

lemma succeeds_read_variable_length:
  assumes "0 \<le> p" "p \<le> int (length buf)" "lencheck \<le> int (length buf)" "ic \<or> p < int (length buf)"
    and post: "\<And>l q err. p \<le> q \<Longrightarrow> 0 \<le> l \<Longrightarrow> q \<le> int (length buf) \<Longrightarrow>
      (err = ok \<and> q < lencheck) \<or>
      (err = loop_error \<and> lencheck \<le> q \<and> q \<le> max (p + 1) lencheck \<and> (ic \<longrightarrow> p < lencheck)) \<or>
      (err = initial_error \<and> ic \<and> q = p \<and> lencheck \<le> p) \<Longrightarrow>
      Q (l, q, err)"
  shows "succeeds (read_variable_length buf p lencheck True ic ok) Q"
proof (cases "ic \<and> lencheck \<le> p")
  case True
  then show ?thesis
    unfolding read_variable_length_def using assms(1-3)
    by (auto simp: succeeds_def intro!: post)
next
  case False
  with assms(3,4) have lt: "p < int (length buf)" by auto
  have "succeeds (read_variable_length_loop buf p lencheck True 0 ok) Q"
    using assms(1-3) lt False by (intro succeeds_read_variable_length_loop post) auto
  with False show ?thesis
    unfolding read_variable_length_def by auto
qed

lemma succeeds_copy_match:
  assumes bc: "bounds_checked c"
    and pre: "int (length (mem st)) = outputSize c" "0 \<le> ip st" "ip st < srcSize c"
      "0 \<le> op st" "op st + 8 \<le> outputSize c"
      "0 \<le> offset" "match = op st - offset" "0 \<le> len" "len \<le> 15"
    and post: "\<And>r. inv c (state_of r) \<Longrightarrow> ip st \<le> ip (state_of r) \<Longrightarrow>
        (\<forall>s. r = Continue s \<longrightarrow> ip s < srcSize c) \<Longrightarrow> (\<forall>s. r \<noteq> Break s) \<Longrightarrow> Q r"
  shows "succeeds (copy_match t c st len offset match) Q"
  unfolding copy_match_def
  apply (simp only: bounds_checkedD(7)[OF bc] refl simp_thms)
  using pre
  apply (intro succeeds_intros succeeds_read_variable_length succeeds_safe_match_copy[OF bc] post)
  apply (auto simp: bounds_checkedD[OF bc] inv_def)
  done

lemma succeeds_get_offset:
  assumes bc: "bounds_checked c"
    and pre: "int (length (mem st)) = outputSize c" "0 \<le> ip st" "ip st + 3 \<le> srcSize c"
      "0 \<le> op st" "op st + 8 \<le> outputSize c" "0 \<le> token"
    and post: "\<And>r. inv c (state_of r) \<Longrightarrow> ip st \<le> ip (state_of r) \<Longrightarrow>
        (\<forall>s. r = Continue s \<longrightarrow> ip s < srcSize c) \<Longrightarrow> (\<forall>s. r \<noteq> Break s) \<Longrightarrow> Q r"
  shows "succeeds (get_offset t c st token) Q"
  unfolding get_offset_def
  using pre and_15_bounds[OF pre(6)]
  by (intro succeeds_intros succeeds_LZ4_readLE16 succeeds_copy_match[OF bc] post;
      simp add: bounds_checkedD[OF bc]; fail)

lemma succeeds_safe_literal_copy:
  assumes bc: "bounds_checked c"
    and pre: "inv c st" "0 \<le> len" "cpy = op st + len" "0 \<le> token"
    and post: "\<And>r. inv c (state_of r) \<Longrightarrow> ip st \<le> ip (state_of r) \<Longrightarrow>
        (\<forall>s. r = Continue s \<longrightarrow> ip s < srcSize c) \<Longrightarrow>
        (\<forall>s. r = Break s \<longrightarrow> ip s = srcSize c) \<Longrightarrow> Q r"
  shows "succeeds (safe_literal_copy t c st token len cpy) Q"
  unfolding safe_literal_copy_def
  using pre
  by (intro succeeds_intros succeeds_memmove succeeds_LZ4_wildCopy8_Other succeeds_get_offset[OF bc] post;
      simp add: bounds_checkedD[OF bc] inv_def bytes_of_def; fail)

lemma succeeds_literal_length:
  assumes bc: "bounds_checked c"
    and pre: "inv c st" "len = 15"
    and post: "\<And>len1 st1 err. 0 \<le> len1 \<Longrightarrow> op st1 = op st \<Longrightarrow> mem st1 = mem st \<Longrightarrow>
        ip st \<le> ip st1 \<Longrightarrow> ip st1 \<le> srcSize c \<Longrightarrow> (\<not> err \<longrightarrow> ip st1 \<le> srcSize c - 15) \<Longrightarrow>
        Q (len1, st1, err)"
  shows "succeeds (literal_length t c st len) Q"
  unfolding literal_length_def
  apply (simp only: bounds_checkedD(7)[OF bc] refl simp_thms)
  using pre
  apply (intro succeeds_intros succeeds_read_variable_length post)
  apply (auto simp: bounds_checkedD[OF bc] inv_def)
  done

lemma succeeds_safe_iteration:
  assumes bc: "bounds_checked c"
    and pre: "inv c st" "ip st < srcSize c"
    and post: "\<And>r. inv c (state_of r) \<Longrightarrow> ip st < ip (state_of r) \<Longrightarrow>
        (\<forall>s. r = Continue s \<longrightarrow> ip s < srcSize c) \<Longrightarrow>
        (\<forall>s. r = Break s \<longrightarrow> ip s = srcSize c) \<Longrightarrow> Q r"
  shows "succeeds (safe_iteration t c st) Q"
proof -
  from pre obtain tk where tk: "peek (input c) (ip st) = Some tk"
    by (auto simp: peek_def inv_def bounds_checkedD[OF bc])
  define ll where "ll = drop_bit 4 (uint tk)"
  define ml where "ml = uint tk AND 15"
  have tb: "0 \<le> ll" "ll \<le> 15" "0 \<le> ml" "ml \<le> 15" "0 \<le> uint tk"
    using token_bounds[of tk] by (simp_all add: ll_def ml_def)
  have st: "int (length (mem st)) = outputSize c" "0 \<le> ip st" "ip st < int (length (input c))"
    "0 \<le> op st" "op st \<le> outputSize c"
    using pre by (simp_all add: inv_def bounds_checkedD[OF bc])
  have inv1: "inv c (st\<lparr>ip := ip st + 1\<rparr>)"
    using st by (simp add: inv_def bounds_checkedD[OF bc])
  show ?thesis
    unfolding safe_iteration_def tk
    apply (simp only: bounds_checkedD(7)[OF bc] refl simp_thms if_True bind.bind_lunit Let_def)
    unfolding ll_def[symmetric] ml_def[symmetric]
    using st tb
    apply (intro succeeds_intros succeeds_memcpy succeeds_LZ4_readLE16 succeeds_copy_match[OF bc]
        succeeds_literal_length[OF bc] succeeds_safe_literal_copy[OF bc] post inv1)
    apply (auto simp: bounds_checkedD[OF bc] inv_def bytes_of_def)
    done
qed

lemma safe_decode_runs:
  "bounds_checked c \<Longrightarrow> inv c st \<Longrightarrow> ip st < srcSize c \<Longrightarrow>
   \<exists>e. safe_decode t c st = Some e \<and> inv c (exit_state e) \<and>
     (\<forall>s. e = EndOfDecoding s \<longrightarrow> ip s = srcSize c)"
proof (induction t c st rule: safe_decode.induct)
  case (1 t c st)
  have "succeeds (safe_iteration t c st) (\<lambda>r. inv c (state_of r) \<and>
      (\<forall>s. r = Continue s \<longrightarrow> ip s < srcSize c) \<and> (\<forall>s. r = Break s \<longrightarrow> ip s = srcSize c))"
    using "1.prems" by (intro succeeds_safe_iteration) auto
  then obtain r where r: "safe_iteration t c st = Some r" "inv c (state_of r)"
      "\<forall>s. r = Continue s \<longrightarrow> ip s < srcSize c" "\<forall>s. r = Break s \<longrightarrow> ip s = srcSize c"
    by (auto simp: succeeds_def)
  show ?case
  proof (cases r)
    case (Continue s)
    with r "1.prems" have "\<exists>e. safe_decode t c s = Some e \<and> inv c (exit_state e) \<and>
        (\<forall>s. e = EndOfDecoding s \<longrightarrow> ip s = srcSize c)"
      by (intro "1.IH"[of r s]) auto
    with r(1) Continue show ?thesis by (subst safe_decode.simps) simp
  next
    case (Break s)
    with r show ?thesis by (subst safe_decode.simps) simp
  next
    case (Error s)
    with r show ?thesis by (subst safe_decode.simps) simp
  qed
qed

lemma succeeds_resume:
  assumes "bounds_checked c" "inv c (state_of r)" "\<forall>s. r = Continue s \<longrightarrow> ip s < srcSize c"
    "\<forall>s. r = Break s \<longrightarrow> ip s = srcSize c"
  shows "\<exists>e. resume t c r = Some e \<and> inv c (exit_state e) \<and>
     (\<forall>s. e = EndOfDecoding s \<longrightarrow> ip s = srcSize c)"
  using assms safe_decode_runs[of c _ t]
  by (cases r) (auto simp: resume_def)

subsection \<open>Memory safety: the fast loop\<close>

lemma succeeds_fast_copy:
  assumes bc: "bounds_checked c"
    and pre: "int (length (mem st)) = outputSize c" "0 \<le> op st" "op st + len < outputSize c - 64"
      "0 \<le> offset" "match = op st - offset" "4 \<le> len"
    and post: "\<And>r. int (length (mem (fstate_of r))) = outputSize c \<Longrightarrow> ip (fstate_of r) = ip st \<Longrightarrow>
        0 \<le> op (fstate_of r) \<Longrightarrow> op (fstate_of r) < outputSize c - 64 \<Longrightarrow> (\<forall>s. r \<noteq> InSafe s) \<Longrightarrow> Q r"
  shows "succeeds (fast_copy c st len offset match) Q"
  unfolding fast_copy_def
  using pre
  apply (intro succeeds_intros succeeds_LZ4_memcpy_using_offset succeeds_LZ4_wildCopy32_Self post)
  apply (auto simp: bounds_checkedD[OF bc])
  done

lemma succeeds_fast_match:
  assumes bc: "bounds_checked c"
    and pre: "int (length (mem st)) = outputSize c" "0 \<le> ip st" "ip st + 3 \<le> srcSize c"
      "0 \<le> op st" "op st + 32 \<le> outputSize c" "0 \<le> token"
    and post: "\<And>r. inv c (fstate_of r) \<Longrightarrow> ip st \<le> ip (fstate_of r) \<Longrightarrow>
        (\<forall>s. r = FContinue s \<longrightarrow> ip s < srcSize c \<and> op s + 64 \<le> outputSize c) \<Longrightarrow>
        (\<forall>s. r = InSafe (Continue s) \<longrightarrow> ip s < srcSize c) \<Longrightarrow>
        (\<forall>s. r \<noteq> InSafe (Break s)) \<Longrightarrow> Q r"
  shows "succeeds (fast_match t c st token) Q"
  unfolding fast_match_def
  apply (simp only: bounds_checkedD(7)[OF bc] refl simp_thms)
  using pre and_15_bounds[OF pre(6)]
  apply (intro succeeds_intros succeeds_LZ4_readLE16 succeeds_read_variable_length succeeds_memcpy
      succeeds_fast_copy[OF bc] succeeds_safe_match_copy[OF bc] post)
  apply (auto simp: bounds_checkedD[OF bc] inv_def bytes_of_def)
  done

lemma succeeds_fast_iteration:
  assumes bc: "bounds_checked c"
    and pre: "inv c st" "ip st < srcSize c" "op st + 64 \<le> outputSize c"
    and post: "\<And>r. inv c (fstate_of r) \<Longrightarrow> ip st < ip (fstate_of r) \<Longrightarrow>
        (\<forall>s. r = FContinue s \<longrightarrow> ip s < srcSize c \<and> op s + 64 \<le> outputSize c) \<Longrightarrow>
        (\<forall>s. r = InSafe (Continue s) \<longrightarrow> ip s < srcSize c) \<Longrightarrow>
        (\<forall>s. r = InSafe (Break s) \<longrightarrow> ip s = srcSize c) \<Longrightarrow> Q r"
  shows "succeeds (fast_iteration t c st) Q"
proof -
  from pre obtain tk where tk: "peek (input c) (ip st) = Some tk"
    by (auto simp: peek_def inv_def bounds_checkedD[OF bc])
  define ll where "ll = drop_bit 4 (uint tk)"
  have tb: "0 \<le> ll" "ll \<le> 15" "0 \<le> uint tk"
    using token_bounds[of tk] by (simp_all add: ll_def)
  have st: "int (length (mem st)) = outputSize c" "0 \<le> ip st" "ip st < int (length (input c))"
    "0 \<le> op st" "op st + 64 \<le> outputSize c"
    using pre by (simp_all add: inv_def bounds_checkedD[OF bc])
  have inv1: "inv c (st\<lparr>ip := ip st + 1\<rparr>)"
    using st by (simp add: inv_def bounds_checkedD[OF bc])
  show ?thesis
    unfolding fast_iteration_def tk
    apply (simp only: bounds_checkedD(7)[OF bc] refl simp_thms if_True bind.bind_lunit Let_def)
    unfolding ll_def[symmetric]
    using st tb
    apply (intro succeeds_intros succeeds_memcpy succeeds_LZ4_wildCopy32_Other succeeds_fast_match[OF bc]
        succeeds_literal_length[OF bc] succeeds_safe_literal_copy[OF bc] post inv1)
    apply (auto simp: bounds_checkedD[OF bc] inv_def bytes_of_def)
    done
qed

lemma fast_loop_runs:
  "bounds_checked c \<Longrightarrow> inv c st \<Longrightarrow> ip st < srcSize c \<Longrightarrow> op st + 64 \<le> outputSize c \<Longrightarrow>
   \<exists>e. fast_loop t c st = Some e \<and> inv c (exit_state e) \<and>
     (\<forall>s. e = EndOfDecoding s \<longrightarrow> ip s = srcSize c)"
proof (induction t c st rule: fast_loop.induct)
  case (1 t c st)
  have "succeeds (fast_iteration t c st) (\<lambda>r. inv c (fstate_of r) \<and>
      (\<forall>s. r = FContinue s \<longrightarrow> ip s < srcSize c \<and> op s + 64 \<le> outputSize c) \<and>
      (\<forall>s. r = InSafe (Continue s) \<longrightarrow> ip s < srcSize c) \<and>
      (\<forall>s. r = InSafe (Break s) \<longrightarrow> ip s = srcSize c))"
    using "1.prems" by (intro succeeds_fast_iteration) auto
  then obtain r where r: "fast_iteration t c st = Some r" "inv c (fstate_of r)"
      "\<forall>s. r = FContinue s \<longrightarrow> ip s < srcSize c \<and> op s + 64 \<le> outputSize c"
      "\<forall>s. r = InSafe (Continue s) \<longrightarrow> ip s < srcSize c"
      "\<forall>s. r = InSafe (Break s) \<longrightarrow> ip s = srcSize c"
    by (auto simp: succeeds_def)
  show ?case
  proof (cases r)
    case (FContinue s)
    with r "1.prems" have "\<exists>e. fast_loop t c s = Some e \<and> inv c (exit_state e) \<and>
        (\<forall>s. e = EndOfDecoding s \<longrightarrow> ip s = srcSize c)"
      by (intro "1.IH"[of r s]) auto
    with r(1) FContinue show ?thesis by (subst fast_loop.simps) simp
  next
    case (FError s)
    with r show ?thesis by (subst fast_loop.simps) simp
  next
    case (InSafe x)
    with r "1.prems"(1) have "\<exists>e. resume t c x = Some e \<and> inv c (exit_state e) \<and>
        (\<forall>s. e = EndOfDecoding s \<longrightarrow> ip s = srcSize c)"
      by (intro succeeds_resume) auto
    with r(1) InSafe show ?thesis by (subst fast_loop.simps) simp
  qed
qed

lemma decode_sequences_runs:
  assumes bc: "bounds_checked c" and len: "int (length m) = outputSize c" and ne: "0 < srcSize c"
  shows "\<exists>e. decode_sequences t c m = Some e \<and> inv c (exit_state e) \<and>
     (\<forall>s. e = EndOfDecoding s \<longrightarrow> ip s = srcSize c)"
proof -
  have i: "inv c \<lparr>ip = 0, op = dst c, mem = m\<rparr>"
    using len ne by (simp add: inv_def bounds_checkedD[OF bc])
  show ?thesis
  proof (cases "LZ4_FAST_DEC_LOOP t \<and> \<not> (oend c - dst c < 64)")
    case True
    then have "op \<lparr>ip = 0, op = dst c, mem = m\<rparr> + 64 \<le> outputSize c"
      by (simp add: bounds_checkedD[OF bc])
    from fast_loop_runs[OF bc i _ this, of t] ne True show ?thesis
      by (simp add: decode_sequences_def)
  next
    case False
    from safe_decode_runs[OF bc i, of t] ne False show ?thesis
      by (auto simp add: decode_sequences_def)
  qed
qed

subsection \<open>Memory safety: the whole call\<close>

text \<open>The arguments of the bounds-checked entry point are a bounds-checked configuration.\<close>

lemma bounds_checked_safe:
  "compressedSize = int (length source) \<Longrightarrow>
   bounds_checked \<lparr>src = Some source, dst = 0, srcSize = compressedSize,
      outputSize = maxDecompressedSize, endOnInput = endOnInputSize,
      partialDecoding = decode_full_block, dict = noDict, lowPrefix = 0, dictStart = None,
      dictSize = 0\<rparr>"
  by (simp add: bounds_checked_def input_def)

lemma output_error_negative:
  "0 \<le> ip st \<Longrightarrow> ip st \<le> INT_MAX \<Longrightarrow> output_error st = - ip st - 1 \<and> output_error st < 0"
  by (simp add: output_error_def to_int_id INT_MAX_def)

lemma end_of_decoding_count:
  "bounds_checked c \<Longrightarrow> 0 \<le> op st \<Longrightarrow> op st \<le> INT_MAX \<Longrightarrow> end_of_decoding c st = op st"
  by (simp add: end_of_decoding_def to_int_id INT_MAX_def bounds_checkedD)

text \<open>What \<open>LZ4_decompress_generic\<close> returns in a bounds-checked configuration.\<close>

lemma LZ4_decompress_generic_result:
  assumes bc: "bounds_checked c" and len: "int (length m) = outputSize c"
    and max: "srcSize c \<le> INT_MAX" "outputSize c \<le> INT_MAX"
  shows "(outputSize c = 0 \<or> srcSize c = 0) \<and>
           LZ4_decompress_generic t c m = Some (if outputSize c = 0 \<and> input c = [0] then 0 else - 1, m)
       \<or> outputSize c \<noteq> 0 \<and> srcSize c \<noteq> 0 \<and>
          (\<exists>st. decode_sequences t c m = Some (EndOfDecoding st) \<and> inv c st \<and> ip st = srcSize c \<and>
                LZ4_decompress_generic t c m = Some (op st, mem st))
       \<or> outputSize c \<noteq> 0 \<and> srcSize c \<noteq> 0 \<and>
          (\<exists>st. decode_sequences t c m = Some (OutputError st) \<and> inv c st \<and>
                LZ4_decompress_generic t c m = Some (- ip st - 1, mem st))"
proof (cases "outputSize c = 0 \<or> srcSize c = 0")
  case True
  have s: "src c \<noteq> None" "srcSize c = int (length (input c))" using bc by (simp_all add: bounds_checked_def)
  show ?thesis
  proof (cases "outputSize c = 0")
    case o: True
    show ?thesis
    proof (cases "srcSize c = 1")
      case True
      with s obtain b where b: "input c = [b]" by (cases "input c") auto
      with True o s show ?thesis
        by (simp add: LZ4_decompress_generic_def bounds_checkedD[OF bc] peek_def)
    next
      case False
      with s have "input c \<noteq> [0]" by auto
      with False o s show ?thesis
        by (simp add: LZ4_decompress_generic_def bounds_checkedD[OF bc])
    qed
  next
    case False
    with True s show ?thesis
      by (simp add: LZ4_decompress_generic_def bounds_checkedD[OF bc])
  qed
next
  case False
  have s: "src c \<noteq> None" "srcSize c = int (length (input c))" using bc by (simp_all add: bounds_checked_def)
  with False have pos: "0 < srcSize c" by simp
  from decode_sequences_runs[OF bc len pos, of t] obtain e where
    e: "decode_sequences t c m = Some e" "inv c (exit_state e)" "\<forall>s. e = EndOfDecoding s \<longrightarrow> ip s = srcSize c"
    by blast
  have g: "LZ4_decompress_generic t c m =
      (case e of EndOfDecoding st \<Rightarrow> Some (end_of_decoding c st, mem st)
               | OutputError st \<Rightarrow> Some (output_error st, mem st))"
    using False s e(1) by (auto simp add: LZ4_decompress_generic_def bounds_checkedD[OF bc])
  show ?thesis
  proof (cases e)
    case (EndOfDecoding st)
    with e(2) max have "end_of_decoding c st = op st"
      by (intro end_of_decoding_count[OF bc]) (auto simp: inv_def)
    with EndOfDecoding e g False show ?thesis by simp
  next
    case (OutputError st)
    with e(2) max have "output_error st = - ip st - 1 \<and> output_error st < 0"
      by (intro output_error_negative) (auto simp: inv_def)
    with OutputError e g False show ?thesis by simp
  qed
qed

subsection \<open>The bounds-checked entry point\<close>

lemma LZ4_decompress_safe_result:
  assumes "compressedSize = int (length source)" and "maxDecompressedSize = int (length dest)"
    and "compressedSize \<le> INT_MAX" and "maxDecompressedSize \<le> INT_MAX"
  defines "c \<equiv> \<lparr>src = Some source, dst = 0, srcSize = compressedSize,
      outputSize = maxDecompressedSize, endOnInput = endOnInputSize,
      partialDecoding = decode_full_block, dict = noDict, lowPrefix = 0, dictStart = None,
      dictSize = 0\<rparr>"
  shows "(maxDecompressedSize = 0 \<or> compressedSize = 0) \<and>
           LZ4_decompress_safe t (Some source) dest compressedSize maxDecompressedSize =
             Some (if maxDecompressedSize = 0 \<and> source = [0] then 0 else - 1, dest)
       \<or> maxDecompressedSize \<noteq> 0 \<and> compressedSize \<noteq> 0 \<and>
          (\<exists>st. decode_sequences t c dest = Some (EndOfDecoding st) \<and> inv c st \<and>
                ip st = compressedSize \<and>
                LZ4_decompress_safe t (Some source) dest compressedSize maxDecompressedSize =
                  Some (op st, mem st))
       \<or> maxDecompressedSize \<noteq> 0 \<and> compressedSize \<noteq> 0 \<and>
          (\<exists>st. decode_sequences t c dest = Some (OutputError st) \<and> inv c st \<and>
                LZ4_decompress_safe t (Some source) dest compressedSize maxDecompressedSize =
                  Some (- ip st - 1, mem st))"
proof -
  have bc: "bounds_checked c" unfolding c_def using assms(1) by (rule bounds_checked_safe)
  have eq: "LZ4_decompress_safe t (Some source) dest compressedSize maxDecompressedSize =
      LZ4_decompress_generic t c dest"
    by (simp add: LZ4_decompress_safe_def c_def)
  have f: "outputSize c = maxDecompressedSize" "srcSize c = compressedSize" "input c = source"
    by (simp_all add: c_def input_def)
  from LZ4_decompress_generic_result[OF bc, of dest t] assms(2-4)
  show ?thesis unfolding eq f by simp
qed

text \<open>
  C1. For every source buffer of \<open>compressedSize\<close> bytes and every destination buffer of
  \<open>maxDecompressedSize\<close> bytes, whatever the source bytes are, \<open>LZ4_decompress_safe\<close> returns
  without any access outside the two buffers (every read and write of the model is checked
  against them) and leaves the destination with its size; the result is negative or a count
  of at most \<open>maxDecompressedSize\<close>; and wherever it detects a malformed block (the two
  special cases that return -1, and the label \<open>_output_error\<close>) the result is negative.
\<close>

theorem LZ4_decompress_safe_memory_safe:
  assumes "compressedSize = int (length source)" and "maxDecompressedSize = int (length dest)"
    and "compressedSize \<le> INT_MAX" and "maxDecompressedSize \<le> INT_MAX"
  shows "\<exists>r m. LZ4_decompress_safe t (Some source) dest compressedSize maxDecompressedSize = Some (r, m)
           \<and> length m = length dest
           \<and> (r < 0 \<or> 0 \<le> r \<and> r \<le> maxDecompressedSize)
           \<and> (maxDecompressedSize = 0 \<and> source \<noteq> [0] \<longrightarrow> r = - 1)
           \<and> (maxDecompressedSize \<noteq> 0 \<and> compressedSize = 0 \<longrightarrow> r = - 1)
           \<and> (maxDecompressedSize \<noteq> 0 \<and> compressedSize \<noteq> 0 \<longrightarrow>
                (\<forall>st. decode_sequences t
                   \<lparr>src = Some source, dst = 0, srcSize = compressedSize,
                    outputSize = maxDecompressedSize, endOnInput = endOnInputSize,
                    partialDecoding = decode_full_block, dict = noDict, lowPrefix = 0,
                    dictStart = None, dictSize = 0\<rparr> dest = Some (OutputError st)
                 \<longrightarrow> r = - ip st - 1 \<and> r < 0))"
  using LZ4_decompress_safe_result[OF assms, of t] assms(2)
  by (elim disjE conjE exE) (auto simp: inv_def)

theorem LZ4_decompress_safe_memory_safe_witness:
  "\<exists>r m. LZ4_decompress_safe \<lparr>LZ4_FAST_DEC_LOOP = True, srcAddr = 4096, dstAddr = 8192\<rparr>
            (Some [0x40, 0x61, 0x62, 0x63, 0x64]) [0, 0, 0, 0] 5 4 = Some (r, m)
         \<and> length m = 4 \<and> (r < 0 \<or> 0 \<le> r \<and> r \<le> 4)"
proof -
  have h: "(5::int) = int (length [0x40, 0x61, 0x62, 0x63, 0x64 :: byte])"
      "(4::int) = int (length [0, 0, 0, 0 :: byte])" "(5::int) \<le> INT_MAX" "(4::int) \<le> INT_MAX"
    by (simp_all add: INT_MAX_def)
  from LZ4_decompress_safe_memory_safe[OF h] show ?thesis by fastforce
qed

text \<open>
  C8. For every source buffer, \<open>compressedSize\<close> and \<open>maxDecompressedSize\<close>, a call of
  \<open>LZ4_decompress_safe\<close> returns a value (all loops of the model are total functions, and
  no access leaves a buffer); every iteration of the fast loop and of the main loop reads its
  token inside the input and ends with the input cursor at least one byte further.
\<close>

theorem LZ4_decompress_safe_terminates:
  assumes "compressedSize = int (length source)" and "maxDecompressedSize = int (length dest)"
    and "compressedSize \<le> INT_MAX" and "maxDecompressedSize \<le> INT_MAX"
  shows "(\<exists>r m. LZ4_decompress_safe t (Some source) dest compressedSize maxDecompressedSize = Some (r, m))
       \<and> (\<forall>t' c st r. fast_iteration t' c st = Some r \<longrightarrow>
             ip st + 1 \<le> ip (fstate_of r) \<and> ip st < int (length (input c)))
       \<and> (\<forall>t' c st r. safe_iteration t' c st = Some r \<longrightarrow>
             ip st + 1 \<le> ip (state_of r) \<and> ip st < int (length (input c)))"
proof -
  have "\<exists>r m. LZ4_decompress_safe t (Some source) dest compressedSize maxDecompressedSize = Some (r, m)"
    using LZ4_decompress_safe_result[OF assms, of t] by (elim disjE conjE exE) auto
  moreover have "ip st + 1 \<le> ip (fstate_of r) \<and> ip st < int (length (input c))"
    if "fast_iteration t' c st = Some r" for t' c st r
    using fast_iteration_ip[OF that] by simp
  moreover have "ip st + 1 \<le> ip (state_of r) \<and> ip st < int (length (input c))"
    if "safe_iteration t' c st = Some r" for t' c st r
    using safe_iteration_ip[OF that] by simp
  ultimately show ?thesis by blast
qed

theorem LZ4_decompress_safe_terminates_witness:
  "\<exists>r m. LZ4_decompress_safe \<lparr>LZ4_FAST_DEC_LOOP = True, srcAddr = 4096, dstAddr = 8192\<rparr>
            (Some [0x40, 0x61, 0x62, 0x63, 0x64]) [0, 0, 0, 0] 5 4 = Some (r, m)"
proof -
  have h: "(5::int) = int (length [0x40, 0x61, 0x62, 0x63, 0x64 :: byte])"
      "(4::int) = int (length [0, 0, 0, 0 :: byte])" "(5::int) \<le> INT_MAX" "(4::int) \<le> INT_MAX"
    by (simp_all add: INT_MAX_def)
  from LZ4_decompress_safe_terminates[OF h] show ?thesis by blast
qed

text \<open>
  C6. With a destination capacity of 0, \<open>LZ4_decompress_safe\<close> returns 0 exactly when
  \<open>compressedSize\<close> is 1 and the source byte is 0; for every other source, the empty one
  and \<open>NULL\<close> included, it returns -1. The destination is not written.
\<close>

theorem LZ4_decompress_safe_empty_output:
  assumes "compressedSize = int (length source)"
  shows "LZ4_decompress_safe t (Some source) dest compressedSize 0 =
           Some (if compressedSize = 1 \<and> source = [0] then 0 else - 1, dest)
       \<and> LZ4_decompress_safe t None dest compressedSize 0 = Some (- 1, dest)"
proof (cases "compressedSize = 1")
  case True
  with assms obtain b where "source = [b]" by (cases source) auto
  with True show ?thesis
    by (simp add: LZ4_decompress_safe_def LZ4_decompress_generic_def input_def peek_def)
next
  case False
  then show ?thesis
    by (simp add: LZ4_decompress_safe_def LZ4_decompress_generic_def)
qed

theorem LZ4_decompress_safe_empty_output_witness:
  "LZ4_decompress_safe \<lparr>LZ4_FAST_DEC_LOOP = True, srcAddr = 4096, dstAddr = 8192\<rparr> (Some [0]) [] 1 0 = Some (0, [])
   \<and> LZ4_decompress_safe \<lparr>LZ4_FAST_DEC_LOOP = True, srcAddr = 4096, dstAddr = 8192\<rparr> (Some []) [] 0 0 = Some (- 1, [])
   \<and> LZ4_decompress_safe \<lparr>LZ4_FAST_DEC_LOOP = True, srcAddr = 4096, dstAddr = 8192\<rparr> (Some [0, 0]) [] 2 0 = Some (- 1, [])"
proof -
  have h: "(1::int) = int (length [0 :: byte])" "(0::int) = int (length ([] :: byte list))"
     "(2::int) = int (length [0, 0 :: byte])"
    by simp_all
  from LZ4_decompress_safe_empty_output[OF h(1)] LZ4_decompress_safe_empty_output[OF h(2)]
    LZ4_decompress_safe_empty_output[OF h(3)]
  show ?thesis by simp
qed

text \<open>
  C10. With \<open>src == NULL\<close>, \<open>LZ4_decompress_generic\<close> returns -1 whatever its other
  arguments are, and so does \<open>LZ4_decompress_safe\<close>; no buffer is read or written (the
  output memory is returned as it was).
\<close>

theorem LZ4_decompress_generic_NULL:
  "LZ4_decompress_generic t (c\<lparr>src := None\<rparr>) m = Some (- 1, m)
   \<and> LZ4_decompress_safe t None dest compressedSize maxDecompressedSize = Some (- 1, dest)"
  by (simp add: LZ4_decompress_safe_def LZ4_decompress_generic_def)

theorem LZ4_decompress_generic_NULL_witness:
  "LZ4_decompress_safe \<lparr>LZ4_FAST_DEC_LOOP = True, srcAddr = 4096, dstAddr = 8192\<rparr> None [7, 7] 5 2 = Some (- 1, [7, 7])"
  using LZ4_decompress_generic_NULL[of "\<lparr>LZ4_FAST_DEC_LOOP = True, srcAddr = 4096, dstAddr = 8192\<rparr>" _ _ "[7, 7]" 5 2]
  by simp

subsection \<open>What the decoder accepts and rejects\<close>

lemmas decoder_defs =
  LZ4_decompress_safe_def LZ4_decompress_generic_def decode_sequences_def
  safe_iteration_def safe_literal_copy_def get_offset_def copy_match_def safe_match_copy_def
  literal_length_def input_def iend_def oend_def shortiend_def shortoend_def checkOffset_def
  safeDecode_def peek_def load_def store_def memcpy_def memmove_def copy_byte_def LZ4_write32_def
  LZ4_readLE16_def bytes_of_def end_of_decoding_def output_error_def to_int_def
  inc32table_def dec64table_def Let_def

text \<open>
  What the match copy of the main loop decides: it ends in \<open>_output_error\<close> exactly when
  the match would start before the destination or end within its last \<open>LASTLITERALS\<close>
  bytes; otherwise the output cursor moves on by the match length.
\<close>

lemma safe_match_copy_verdict:
  assumes bc: "bounds_checked c"
    and pre: "int (length (mem st)) = outputSize c" "0 \<le> op st" "op st + 8 \<le> outputSize c"
      "0 \<le> offset" "match = op st - offset" "4 \<le> len"
    and post: "\<And>r. ip (state_of r) = ip st \<Longrightarrow>
        ((\<exists>s. r = Error s) \<longleftrightarrow> op st < offset \<or> outputSize c - LASTLITERALS < op st + len) \<Longrightarrow>
        (\<forall>s. r = Continue s \<longrightarrow> op s = op st + len) \<Longrightarrow> (\<forall>s. r \<noteq> Break s) \<Longrightarrow> Q r"
  shows "succeeds (safe_match_copy c st len offset match) Q"
proof (cases "offset < 8")
  case True
  note tb = offset_tables[OF pre(4) True]
  show ?thesis
    unfolding safe_match_copy_def
    using pre True tb
    by (intro succeeds_intros succeeds_copy_byte succeeds_memcpy succeeds_LZ4_wildCopy8_Self
          succeeds_LZ4_write32 succeeds_byte_copy_loop post;
        simp add: bytes_of_def bounds_checkedD[OF bc])
next
  case False
  show ?thesis
    unfolding safe_match_copy_def
    using pre False
    by (intro succeeds_intros succeeds_copy_byte succeeds_memcpy succeeds_LZ4_wildCopy8_Self
          succeeds_LZ4_write32 succeeds_byte_copy_loop post;
        simp add: bytes_of_def bounds_checkedD[OF bc])
qed

lemma fast_copy_verdict:
  assumes bc: "bounds_checked c"
    and pre: "int (length (mem st)) = outputSize c" "0 \<le> op st" "op st + len < outputSize c - 64"
      "0 \<le> offset" "match = op st - offset" "4 \<le> len"
    and post: "\<And>r. ip (fstate_of r) = ip st \<Longrightarrow> ((\<exists>s. r = FError s) \<longleftrightarrow> op st < offset) \<Longrightarrow>
        (\<forall>s. r = FContinue s \<longrightarrow> op s = op st + len) \<Longrightarrow> (\<forall>s. r \<noteq> InSafe s) \<Longrightarrow> Q r"
  shows "succeeds (fast_copy c st len offset match) Q"
  unfolding fast_copy_def
  using pre
  apply (intro succeeds_intros succeeds_LZ4_memcpy_using_offset succeeds_LZ4_wildCopy32_Self post)
  apply (auto simp: bounds_checkedD[OF bc])
  done

text \<open>The last literals: they must end the input and fit the output, no more.\<close>

lemma safe_literal_copy_last:
  assumes bc: "bounds_checked c"
    and pre: "inv c st" "0 \<le> len" "ip st + len = srcSize c" "op st + len \<le> outputSize c"
  shows "\<exists>m1. safe_literal_copy t c st token len (op st + len) =
           Some (Break \<lparr>ip = srcSize c, op = op st + len, mem = m1\<rparr>) \<and> length m1 = length (mem st)"
proof -
  have "succeeds (memmove (mem st) (op st) (Other (input c)) (ip st) len) (\<lambda>m1. length m1 = length (mem st))"
    using pre by (intro succeeds_memmove) (auto simp: inv_def bytes_of_def bounds_checkedD[OF bc])
  then obtain m1 where "memmove (mem st) (op st) (Other (input c)) (ip st) len = Some m1"
      "length m1 = length (mem st)"
    by (auto simp: succeeds_def)
  with pre show ?thesis
    by (simp add: safe_literal_copy_def bounds_checkedD[OF bc])
qed

text \<open>
  C2, as the claim states it, fails: the one-byte block \<open>00\<close> ends the input with its last
  (empty) literal run and leaves a destination of capacity 1 unfilled, and the result is 0,
  not negative.
\<close>

theorem exact_fill_counterexample:
  "LZ4_decompress_safe \<lparr>LZ4_FAST_DEC_LOOP = True, srcAddr = 4096, dstAddr = 8192\<rparr>
     (Some [0]) [7] 1 1 = Some (0, [7])"
  by (simp add: decoder_defs)

text \<open>
  C2, amended. In non-partial mode with \<open>endOnInputSize\<close> (the bounds-checked
  configuration), \<open>LZ4_decompress_generic\<close> returns a non-negative count only when the last
  sequence has consumed the input exactly to its declared end, and the count is the output
  cursor, at most the declared capacity; the capacity need not be filled: a literal run that
  ends the input and fits the output ends the decoding with success.
\<close>

theorem LZ4_decompress_generic_success:
  assumes "bounds_checked c" and "int (length m) = outputSize c"
    and "srcSize c \<le> INT_MAX" and "outputSize c \<le> INT_MAX"
  shows "(\<forall>r m'. LZ4_decompress_generic t c m = Some (r, m') \<and> 0 \<le> r \<longrightarrow>
            r \<le> outputSize c \<and>
            (outputSize c = 0 \<and> input c = [0] \<and> r = 0 \<or>
             (\<exists>st. decode_sequences t c m = Some (EndOfDecoding st) \<and>
                   ip st = srcSize c \<and> op st = r \<and> mem st = m')))
       \<and> (\<forall>st token len. inv c st \<and> 0 \<le> len \<and> ip st + len = srcSize c \<and>
              op st + len \<le> outputSize c \<longrightarrow>
            (\<exists>m1. safe_literal_copy t c st token len (op st + len) =
                    Some (Break \<lparr>ip = srcSize c, op = op st + len, mem = m1\<rparr>)))"
proof -
  have A: "r \<le> outputSize c \<and>
            (outputSize c = 0 \<and> input c = [0] \<and> r = 0 \<or>
             (\<exists>st. decode_sequences t c m = Some (EndOfDecoding st) \<and>
                   ip st = srcSize c \<and> op st = r \<and> mem st = m'))"
    if a: "LZ4_decompress_generic t c m = Some (r, m') \<and> 0 \<le> r" for r m'
    using LZ4_decompress_generic_result[OF assms, of t] a assms(2)
    by (elim disjE conjE exE) (auto simp: inv_def split: if_splits)
  have B: "\<exists>m1. safe_literal_copy t c st token len (op st + len) =
                    Some (Break \<lparr>ip = srcSize c, op = op st + len, mem = m1\<rparr>)"
    if "inv c st \<and> 0 \<le> len \<and> ip st + len = srcSize c \<and> op st + len \<le> outputSize c"
    for st token len
    using safe_literal_copy_last[OF assms(1), of st len t token] that by blast
  from A B show ?thesis by blast
qed

theorem LZ4_decompress_generic_success_witness:
  "bounds_checked \<lparr>src = Some [0x40, 0x61, 0x62, 0x63, 0x64], dst = 0, srcSize = 5,
      outputSize = 6, endOnInput = endOnInputSize,
      partialDecoding = decode_full_block, dict = noDict, lowPrefix = 0, dictStart = None,
      dictSize = 0\<rparr>
   \<and> LZ4_decompress_generic \<lparr>LZ4_FAST_DEC_LOOP = True, srcAddr = 4096, dstAddr = 8192\<rparr>
      \<lparr>src = Some [0x40, 0x61, 0x62, 0x63, 0x64], dst = 0, srcSize = 5,
       outputSize = 6, endOnInput = endOnInputSize,
       partialDecoding = decode_full_block, dict = noDict, lowPrefix = 0, dictStart = None,
       dictSize = 0\<rparr> [0, 0, 0, 0, 0, 0] = Some (4, [0x61, 0x62, 0x63, 0x64, 0, 0])
   \<and> (\<exists>st. decode_sequences \<lparr>LZ4_FAST_DEC_LOOP = True, srcAddr = 4096, dstAddr = 8192\<rparr>
      \<lparr>src = Some [0x40, 0x61, 0x62, 0x63, 0x64], dst = 0, srcSize = 5,
       outputSize = 6, endOnInput = endOnInputSize,
       partialDecoding = decode_full_block, dict = noDict, lowPrefix = 0, dictStart = None,
       dictSize = 0\<rparr> [0, 0, 0, 0, 0, 0] = Some (EndOfDecoding st) \<and> ip st = 5 \<and> op st = 4)"
proof -
  let ?c = "\<lparr>src = Some [0x40, 0x61, 0x62, 0x63, 0x64 :: byte], dst = 0, srcSize = 5,
      outputSize = 6, endOnInput = endOnInputSize,
      partialDecoding = decode_full_block, dict = noDict, lowPrefix = 0, dictStart = None,
      dictSize = 0\<rparr>"
  let ?t = "\<lparr>LZ4_FAST_DEC_LOOP = True, srcAddr = 4096, dstAddr = 8192\<rparr>"
  have h: "bounds_checked ?c" "int (length [0, 0, 0, 0, 0, 0 :: byte]) = outputSize ?c"
      "srcSize ?c \<le> INT_MAX" "outputSize ?c \<le> INT_MAX"
    by (simp_all add: bounds_checked_def input_def INT_MAX_def)
  have r: "LZ4_decompress_generic ?t ?c [0, 0, 0, 0, 0, 0] = Some (4, [0x61, 0x62, 0x63, 0x64, 0, 0])"
    by (simp add: decoder_defs)
  from LZ4_decompress_generic_success[OF h, of ?t, THEN conjunct1, rule_format, of 4 "[0x61, 0x62, 0x63, 0x64, 0, 0]"] r
  have "\<exists>st. decode_sequences ?t ?c [0, 0, 0, 0, 0, 0] = Some (EndOfDecoding st) \<and> ip st = 5 \<and> op st = 4"
    by auto
  with h(1) r show ?thesis by blast
qed

text \<open>
  C3, as the claim states it, fails: in the 13-byte block \<open>10 61 00 00 80 01 \<dots> 08\<close> the
  first sequence has one literal and a match of length 4 with offset 0; decoded into 13
  bytes it is accepted, the result is 13 and the four bytes of the match are 0.
\<close>

theorem offset_zero_counterexample:
  "LZ4_decompress_safe \<lparr>LZ4_FAST_DEC_LOOP = True, srcAddr = 4096, dstAddr = 8192\<rparr>
     (Some [0x10, 0x61, 0, 0, 0x80, 1, 2, 3, 4, 5, 6, 7, 8])
     [9, 9, 9, 9, 9, 9, 9, 9, 9, 9, 9, 9, 9] 13 13
   = Some (13, [0x61, 0, 0, 0, 0, 1, 2, 3, 4, 5, 6, 7, 8])"
  by (simp add: decoder_defs)

text \<open>
  C3, amended. In the bounds-checked configuration the decoder has one test on the offset
  of a match (in the match copy of the main loop, \<open>safe_match_copy\<close>, and in that of the
  fast loop, \<open>fast_copy\<close>): the match must not start before the destination buffer. A match
  whose offset is larger than the number of bytes already written ends the decoding with
  \<open>_output_error\<close>; one whose offset is at most that number, 0 included, is never rejected
  for its offset: in the main loop it is rejected only when it would end within the last
  \<open>LASTLITERALS\<close> bytes of the output, in the fast loop not at all, and otherwise it is
  copied and the output cursor moves on by its length. Whatever the literal \<open>a\<close>, the
  last literals and the destination's contents are, the block \<open>10 a 00 00 80 l1 \<dots> l8\<close> is
  accepted and its match of offset 0 yields four zero bytes.
\<close>

theorem offset_test:
  assumes "bounds_checked c" and "int (length (mem st)) = outputSize c" and "0 \<le> op st"
    and "0 \<le> offset" and "4 \<le> len"
  shows "(op st + 8 \<le> outputSize c \<longrightarrow>
            (\<exists>r. safe_match_copy c st len offset (op st - offset) = Some r \<and>
                 ((\<exists>s. r = Error s) \<longleftrightarrow>
                    op st < offset \<or> outputSize c - LASTLITERALS < op st + len) \<and>
                 (\<forall>s. r = Continue s \<longrightarrow> op s = op st + len)))
       \<and> (op st + len < outputSize c - FASTLOOP_SAFE_DISTANCE \<longrightarrow>
            (\<exists>r. fast_copy c st len offset (op st - offset) = Some r \<and>
                 ((\<exists>s. r = FError s) \<longleftrightarrow> op st < offset) \<and>
                 (\<forall>s. r = FContinue s \<longrightarrow> op s = op st + len)))
       \<and> LZ4_decompress_safe t (Some [0x10, a, 0, 0, 0x80, l1, l2, l3, l4, l5, l6, l7, l8])
            [d1, d2, d3, d4, d5, d6, d7, d8, d9, d10, d11, d12, d13] 13 13
          = Some (13, [a, 0, 0, 0, 0, l1, l2, l3, l4, l5, l6, l7, l8])"
proof -
  have A: "\<exists>r. safe_match_copy c st len offset (op st - offset) = Some r \<and>
                 ((\<exists>s. r = Error s) \<longleftrightarrow>
                    op st < offset \<or> outputSize c - LASTLITERALS < op st + len) \<and>
                 (\<forall>s. r = Continue s \<longrightarrow> op s = op st + len)"
    if "op st + 8 \<le> outputSize c"
  proof -
    have "succeeds (safe_match_copy c st len offset (op st - offset))
        (\<lambda>r. ((\<exists>s. r = Error s) \<longleftrightarrow>
                    op st < offset \<or> outputSize c - LASTLITERALS < op st + len) \<and>
                 (\<forall>s. r = Continue s \<longrightarrow> op s = op st + len))"
      using assms that by (intro safe_match_copy_verdict) auto
    then show ?thesis by (simp add: succeeds_def)
  qed
  have B: "\<exists>r. fast_copy c st len offset (op st - offset) = Some r \<and>
                 ((\<exists>s. r = FError s) \<longleftrightarrow> op st < offset) \<and>
                 (\<forall>s. r = FContinue s \<longrightarrow> op s = op st + len)"
    if "op st + len < outputSize c - FASTLOOP_SAFE_DISTANCE"
  proof -
    have "succeeds (fast_copy c st len offset (op st - offset))
        (\<lambda>r. ((\<exists>s. r = FError s) \<longleftrightarrow> op st < offset) \<and>
                 (\<forall>s. r = FContinue s \<longrightarrow> op s = op st + len))"
      using assms that by (intro fast_copy_verdict) auto
    then show ?thesis by (simp add: succeeds_def)
  qed
  have C: "LZ4_decompress_safe t (Some [0x10, a, 0, 0, 0x80, l1, l2, l3, l4, l5, l6, l7, l8])
            [d1, d2, d3, d4, d5, d6, d7, d8, d9, d10, d11, d12, d13] 13 13
          = Some (13, [a, 0, 0, 0, 0, l1, l2, l3, l4, l5, l6, l7, l8])"
    by (simp add: decoder_defs)
  from A B C show ?thesis by blast
qed

theorem offset_test_witness:
  "bounds_checked
      \<lparr>src = Some [], dst = 0, srcSize = 0, outputSize = 13, endOnInput = endOnInputSize,
       partialDecoding = decode_full_block, dict = noDict, lowPrefix = 0, dictStart = None,
       dictSize = 0\<rparr>
   \<and> (\<exists>r. safe_match_copy
      \<lparr>src = Some [], dst = 0, srcSize = 0, outputSize = 13, endOnInput = endOnInputSize,
       partialDecoding = decode_full_block, dict = noDict, lowPrefix = 0, dictStart = None,
       dictSize = 0\<rparr>
      \<lparr>ip = 4, op = 1, mem = [0x61, 1, 2, 3, 4, 5, 6, 7, 8, 9, 9, 9, 9]\<rparr> 4 0 (1 - 0) = Some r
      \<and> \<not> (\<exists>s. r = Error s))
   \<and> (\<exists>r. safe_match_copy
      \<lparr>src = Some [], dst = 0, srcSize = 0, outputSize = 13, endOnInput = endOnInputSize,
       partialDecoding = decode_full_block, dict = noDict, lowPrefix = 0, dictStart = None,
       dictSize = 0\<rparr>
      \<lparr>ip = 4, op = 1, mem = [0x61, 1, 2, 3, 4, 5, 6, 7, 8, 9, 9, 9, 9]\<rparr> 4 2 (1 - 2) = Some r
      \<and> (\<exists>s. r = Error s))"
proof -
  let ?c = "\<lparr>src = Some [], dst = 0, srcSize = 0, outputSize = 13, endOnInput = endOnInputSize,
       partialDecoding = decode_full_block, dict = noDict, lowPrefix = 0, dictStart = None,
       dictSize = 0\<rparr>"
  let ?st = "\<lparr>ip = 4, op = 1, mem = [0x61, 1, 2, 3, 4, 5, 6, 7, 8, 9, 9, 9, 9 :: byte]\<rparr>"
  have h: "bounds_checked ?c" "int (length (mem ?st)) = outputSize ?c" "0 \<le> op ?st"
    by (simp_all add: bounds_checked_def input_def)
  have z: "(0::int) \<le> 0" "(0::int) \<le> 2" "(4::int) \<le> 4" by simp_all
  from offset_test[OF h z(1) z(3), THEN conjunct1] offset_test[OF h z(2) z(3), THEN conjunct1] h(1)
  show ?thesis by auto
qed

text \<open>
  C7, as the claim states it, fails: decoded into a destination of capacity 8, the 5-byte
  block \<open>22 61 62 02 00\<close> is rejected with the result -2 and nothing is written. With 8
  bytes of output and 5 bytes of input, neither the fast loop nor the two-stage shortcut is
  entered; the two literals come to the literal copy of the main loop, where \<open>cpy\<close> is
  beyond \<open>oend - MFLIMIT\<close>, so that they are taken for the last sequence, and they do not end
  the input (\<open>ip + length \<noteq> iend\<close>).
\<close>

theorem abab_counterexample:
  "LZ4_decompress_safe \<lparr>LZ4_FAST_DEC_LOOP = True, srcAddr = 4096, dstAddr = 8192\<rparr>
     (Some [0x22, 0x61, 0x62, 2, 0]) [0, 0, 0, 0, 0, 0, 0, 0] 5 8
   = Some (- 2, [0, 0, 0, 0, 0, 0, 0, 0])"
  by (simp add: decoder_defs)

text \<open>
  C7, amended. The 5-byte block of token \<open>0x22\<close>, two literals \<open>a\<close>, \<open>b\<close> and the offset
  bytes \<open>02 00\<close>, decoded by the bounds-checked entry point into a destination of capacity
  8, is rejected with the result -2 and the destination is left as it was. Followed by a last
  sequence of six literals (token \<open>0x60\<close>) and decoded into a destination of capacity 14, it
  succeeds with the result 14: the output is \<open>a b a b a b a b\<close> (the two literals and a
  match of 6 bytes of period 2) and then the six literals.
\<close>

theorem abab_block:
  "LZ4_decompress_safe t (Some [0x22, a, b, 2, 0]) [d1, d2, d3, d4, d5, d6, d7, d8] 5 8
     = Some (- 2, [d1, d2, d3, d4, d5, d6, d7, d8])
   \<and> LZ4_decompress_safe t (Some [0x22, a, b, 2, 0, 0x60, l1, l2, l3, l4, l5, l6])
       [d1, d2, d3, d4, d5, d6, d7, d8, d9, d10, d11, d12, d13, d14] 12 14
     = Some (14, [a, b, a, b, a, b, a, b, l1, l2, l3, l4, l5, l6])"
  by (simp add: decoder_defs)

theorem abab_block_witness:
  "LZ4_decompress_safe \<lparr>LZ4_FAST_DEC_LOOP = True, srcAddr = 4096, dstAddr = 8192\<rparr>
       (Some [0x22, 0x61, 0x62, 2, 0, 0x60, 1, 2, 3, 4, 5, 6])
       [0, 0, 0, 0, 0, 0, 0, 0, 0, 0, 0, 0, 0, 0] 12 14
     = Some (14, [0x61, 0x62, 0x61, 0x62, 0x61, 0x62, 0x61, 0x62, 1, 2, 3, 4, 5, 6])"
  using abab_block[of "\<lparr>LZ4_FAST_DEC_LOOP = True, srcAddr = 4096, dstAddr = 8192\<rparr>" "0x61" "0x62"
      0 0 0 0 0 0 0 0 1 2 3 4 5 6 0 0 0 0 0 0]
  by simp

text \<open>
  C9, as the claim states it, fails: the 10-byte block \<open>1F 61 01 00 00 40 01 02 03 04\<close>
  has one literal, a match of 19 bytes with offset 1 and four last literals; decoded into a
  destination of capacity 25 it is accepted with the result 24, and of the final 5 output
  bytes the first is written by the match copy. (The match ends 5 bytes before the end of
  the output region, which is the declared capacity and not the decoded size.)
\<close>

theorem last_literals_counterexample:
  "LZ4_decompress_safe \<lparr>LZ4_FAST_DEC_LOOP = True, srcAddr = 4096, dstAddr = 8192\<rparr>
     (Some [0x1F, 0x61, 1, 0, 0, 0x40, 1, 2, 3, 4])
     [9, 9, 9, 9, 9, 9, 9, 9, 9, 9, 9, 9, 9, 9, 9, 9, 9, 9, 9, 9, 9, 9, 9, 9, 9] 10 25
   = Some (24, [0x61, 0x61, 0x61, 0x61, 0x61, 0x61, 0x61, 0x61, 0x61, 0x61,
                0x61, 0x61, 0x61, 0x61, 0x61, 0x61, 0x61, 0x61, 0x61, 0x61, 1, 2, 3, 4, 0x61])"
  by (simp add: decoder_defs read_variable_length_def to_unsigned_def ptr_overflow_def to_size_t_def)

text \<open>
  C9, amended. In the bounds-checked configuration, a match that reaches the match copy of
  the main loop (\<open>safe_match_copy\<close>, with at least 8 bytes of output left) and would end
  within the last \<open>LASTLITERALS\<close> bytes of the output region, that is of the declared
  capacity, ends the decoding with \<open>_output_error\<close>, a negative result. The test is
  against the capacity and not against the decoded size: with a capacity of 25, the block
  \<open>1F a 01 00 00 40 l1 l2 l3 l4\<close> is accepted and decodes to 24 bytes, twenty times \<open>a\<close>
  (one literal and a match of 19 bytes) and four last literals.
\<close>

theorem last_literals_test:
  assumes "bounds_checked c" and "int (length (mem st)) = outputSize c" and "0 \<le> op st"
    and "op st + 8 \<le> outputSize c" and "0 \<le> offset" and "4 \<le> len"
    and "outputSize c - LASTLITERALS < op st + len" and "0 \<le> ip st" and "ip st \<le> INT_MAX"
  shows "(\<exists>s. safe_match_copy c st len offset (op st - offset) = Some (Error s) \<and>
             ip s = ip st \<and> resume t c (Error s) = Some (OutputError s) \<and> output_error s < 0)
       \<and> LZ4_decompress_safe \<lparr>LZ4_FAST_DEC_LOOP = fast, srcAddr = 4096, dstAddr = 8192\<rparr>
            (Some [0x1F, a, 1, 0, 0, 0x40, l1, l2, l3, l4])
            [d1, d2, d3, d4, d5, d6, d7, d8, d9, d10, d11, d12, d13, d14, d15, d16,
             d17, d18, d19, d20, d21, d22, d23, d24, d25] 10 25
          = Some (24, [a, a, a, a, a, a, a, a, a, a, a, a, a, a, a, a, a, a, a, a,
                       l1, l2, l3, l4, a])"
proof -
  have "succeeds (safe_match_copy c st len offset (op st - offset))
      (\<lambda>r. ip (state_of r) = ip st \<and> (\<exists>s. r = Error s))"
    using assms by (intro safe_match_copy_verdict) auto
  then obtain s where s: "safe_match_copy c st len offset (op st - offset) = Some (Error s)"
      "ip s = ip st"
    by (auto simp: succeeds_def)
  have "output_error s < 0"
    using output_error_negative[of s] s(2) assms(8,9) by simp
  moreover have "resume t c (Error s) = Some (OutputError s)"
    by (simp add: resume_def)
  moreover have "LZ4_decompress_safe \<lparr>LZ4_FAST_DEC_LOOP = fast, srcAddr = 4096, dstAddr = 8192\<rparr>
            (Some [0x1F, a, 1, 0, 0, 0x40, l1, l2, l3, l4])
            [d1, d2, d3, d4, d5, d6, d7, d8, d9, d10, d11, d12, d13, d14, d15, d16,
             d17, d18, d19, d20, d21, d22, d23, d24, d25] 10 25
          = Some (24, [a, a, a, a, a, a, a, a, a, a, a, a, a, a, a, a, a, a, a, a,
                       l1, l2, l3, l4, a])"
    by (simp add: decoder_defs read_variable_length_def to_unsigned_def ptr_overflow_def
          to_size_t_def)
  ultimately show ?thesis using s by blast
qed

theorem last_literals_test_witness:
  "bounds_checked
      \<lparr>src = Some [], dst = 0, srcSize = 0, outputSize = 13, endOnInput = endOnInputSize,
       partialDecoding = decode_full_block, dict = noDict, lowPrefix = 0, dictStart = None,
       dictSize = 0\<rparr>
   \<and> (\<exists>s. safe_match_copy
      \<lparr>src = Some [], dst = 0, srcSize = 0, outputSize = 13, endOnInput = endOnInputSize,
       partialDecoding = decode_full_block, dict = noDict, lowPrefix = 0, dictStart = None,
       dictSize = 0\<rparr>
      \<lparr>ip = 4, op = 5, mem = [1, 2, 3, 4, 5, 6, 7, 8, 9, 9, 9, 9, 9]\<rparr> 4 5 (5 - 5) = Some (Error s)
      \<and> ip s = 4 \<and> output_error s < 0)"
proof -
  let ?c = "\<lparr>src = Some [], dst = 0, srcSize = 0, outputSize = 13, endOnInput = endOnInputSize,
       partialDecoding = decode_full_block, dict = noDict, lowPrefix = 0, dictStart = None,
       dictSize = 0\<rparr>"
  let ?st = "\<lparr>ip = 4, op = 5, mem = [1, 2, 3, 4, 5, 6, 7, 8, 9, 9, 9, 9, 9 :: byte]\<rparr>"
  have h: "bounds_checked ?c" "int (length (mem ?st)) = outputSize ?c" "0 \<le> op ?st"
      "op ?st + 8 \<le> outputSize ?c" "(0::int) \<le> 5" "(4::int) \<le> 4"
      "outputSize ?c - 5 < op ?st + 4" "0 \<le> ip ?st" "ip ?st \<le> INT_MAX"
    by (simp_all add: bounds_checked_def input_def INT_MAX_def)
  from last_literals_test[OF h, THEN conjunct1] h(1)
  show ?thesis by auto
qed

text \<open>
  The match that the two-stage shortcut of the main loop copies is not put to that test:
  with a capacity of 32, the block \<open>EE l1 \<dots> l14 08 00 00\<close> (14 literals, a match of 18
  bytes with offset 8, an empty last sequence) decodes to 32 bytes that end with the match.
\<close>

lemma shortcut_match_untested:
  "LZ4_decompress_safe t
     (Some [0xEE, l1, l2, l3, l4, l5, l6, l7, l8, l9, l10, l11, l12, l13, l14, 8, 0, 0])
     [d1, d2, d3, d4, d5, d6, d7, d8, d9, d10, d11, d12, d13, d14, d15, d16,
      d17, d18, d19, d20, d21, d22, d23, d24, d25, d26, d27, d28, d29, d30, d31, d32] 18 32
   = Some (32, [l1, l2, l3, l4, l5, l6, l7, l8, l9, l10, l11, l12, l13, l14,
                l7, l8, l9, l10, l11, l12, l13, l14,
                l7, l8, l9, l10, l11, l12, l13, l14, l7, l8])"
  by (simp add: decoder_defs)

end
